theory Spec2Isabelle
  imports Complex_Main "HOL-Library.Word" "HOL-Library.AList" "HOL-Library.Multiset"
begin

unbundle bit_operations_syntax

section \<open>Constants and layout (constants.py)\<close>

definition N_GAINS :: nat where "N_GAINS = 2"
definition N_MODULES :: nat where "N_MODULES = 265"
definition N_PIXELS_MODULE :: nat where "N_PIXELS_MODULE = 7"
definition N_PIXELS :: nat where "N_PIXELS = N_MODULES * N_PIXELS_MODULE"
definition N_CAPACITORS_CHANNEL :: nat where "N_CAPACITORS_CHANNEL = 1024"
definition N_CAPACITORS_PIXEL :: nat where "N_CAPACITORS_PIXEL = 4 * N_CAPACITORS_CHANNEL"
definition N_SAMPLES :: nat where "N_SAMPLES = 40"

section \<open>Event-type classifier (LSTEventSource in \<^verbatim>\<open>__init__.py\<close>)\<close>

text \<open>
  \<^verbatim>\<open>TriggerBits\<close> is a Python \<^verbatim>\<open>IntFlag\<close>; its members are Python integers, so the
  trigger word is an \<^typ>\<open>int\<close> and \<^verbatim>\<open>&\<close>, \<^verbatim>\<open>|\<close> are the bitwise operations on
  integers. The event types are the members of ctapipe's \<^verbatim>\<open>EventType\<close> that the
  classifier can return.
\<close>

datatype EventType = SUBARRAY | FLATFIELD | SKY_PEDESTAL | SINGLE_PE | UNKNOWN

definition TriggerBits_MONO :: int where "TriggerBits_MONO = 1"
definition TriggerBits_STEREO :: int where "TriggerBits_STEREO = 2"
definition TriggerBits_CALIBRATION :: int where "TriggerBits_CALIBRATION = 4"
definition TriggerBits_SINGLE_PE :: int where "TriggerBits_SINGLE_PE = 8"
definition TriggerBits_SOFTWARE :: int where "TriggerBits_SOFTWARE = 16"
definition TriggerBits_PEDESTAL :: int where "TriggerBits_PEDESTAL = 32"
definition TriggerBits_SLOW_CONTROL :: int where "TriggerBits_SLOW_CONTROL = 64"

definition TriggerBits_PHYSICS :: int where
  "TriggerBits_PHYSICS = TriggerBits_MONO OR TriggerBits_STEREO"

definition TriggerBits_OTHER :: int where
  "TriggerBits_OTHER =
     TriggerBits_CALIBRATION OR TriggerBits_SINGLE_PE OR TriggerBits_SOFTWARE
       OR TriggerBits_PEDESTAL OR TriggerBits_SLOW_CONTROL"

text \<open>
  \<^verbatim>\<open>_event_type_from_trigger_bits\<close>: a chain of early returns. A Python integer is true
  in a condition exactly when it is not zero.
\<close>

definition event_type_from_trigger_bits :: "int \<Rightarrow> EventType" where
  "event_type_from_trigger_bits trigger_bits =
     (if (trigger_bits AND TriggerBits_PHYSICS) \<noteq> 0
           \<and> \<not> (trigger_bits AND TriggerBits_OTHER) \<noteq> 0 then SUBARRAY
      else if trigger_bits = TriggerBits_CALIBRATION then FLATFIELD
      else if trigger_bits = (TriggerBits_CALIBRATION OR TriggerBits_MONO) then FLATFIELD
      else if trigger_bits = TriggerBits_PEDESTAL then SKY_PEDESTAL
      else if trigger_bits = TriggerBits_SINGLE_PE then SINGLE_PE
      else UNKNOWN)"

text \<open>
  The older copy of the reader (\<^verbatim>\<open>ctapipe_io_lst/__init__.py\<close>, the chain at the end of
  \<^verbatim>\<open>fill_trigger_info\<close>) only tests whether a flag is present once the event is not a
  pure physics trigger.
\<close>

definition fill_trigger_info_event_type :: "int \<Rightarrow> EventType" where
  "fill_trigger_info_event_type trigger_bits =
     (if (trigger_bits AND TriggerBits_PHYSICS) \<noteq> 0
           \<and> \<not> (trigger_bits AND TriggerBits_OTHER) \<noteq> 0 then SUBARRAY
      else if (trigger_bits AND TriggerBits_CALIBRATION) \<noteq> 0 then FLATFIELD
      else if (trigger_bits AND TriggerBits_PEDESTAL) \<noteq> 0 then SKY_PEDESTAL
      else if (trigger_bits AND TriggerBits_SINGLE_PE) \<noteq> 0 then SINGLE_PE
      else UNKNOWN)"

text \<open>The classification table of the specification, as one predicate of the trigger word.\<close>

definition classification_table :: "int \<Rightarrow> bool" where
  "classification_table bits \<longleftrightarrow>
     (event_type_from_trigger_bits bits = SUBARRAY \<longleftrightarrow>
        (bits AND (TriggerBits_MONO OR TriggerBits_STEREO)) \<noteq> 0
          \<and> (bits AND NOT (TriggerBits_MONO OR TriggerBits_STEREO)) = 0)
   \<and> (event_type_from_trigger_bits bits = FLATFIELD \<longleftrightarrow>
        bits = TriggerBits_CALIBRATION \<or> bits = (TriggerBits_CALIBRATION OR TriggerBits_MONO))
   \<and> (event_type_from_trigger_bits bits = SKY_PEDESTAL \<longleftrightarrow> bits = TriggerBits_PEDESTAL)
   \<and> (event_type_from_trigger_bits bits = SINGLE_PE \<longleftrightarrow> bits = TriggerBits_SINGLE_PE)
   \<and> (event_type_from_trigger_bits bits = UNKNOWN \<longleftrightarrow>
        \<not> ((bits AND (TriggerBits_MONO OR TriggerBits_STEREO)) \<noteq> 0
             \<and> (bits AND NOT (TriggerBits_MONO OR TriggerBits_STEREO)) = 0)
        \<and> bits \<noteq> TriggerBits_CALIBRATION
        \<and> bits \<noteq> (TriggerBits_CALIBRATION OR TriggerBits_MONO)
        \<and> bits \<noteq> TriggerBits_PEDESTAL
        \<and> bits \<noteq> TriggerBits_SINGLE_PE)"


section \<open>Numeric arrays of the compiled kernels (calibration.py)\<close>

text \<open>
  The correction kernels are compiled with numba and work on numpy arrays. A waveform row
  is a list of samples. The samples are 32-bit floats in the program; they are real
  numbers here, so rounding is not part of the model. The kernels index without a bounds
  check, and an access outside the array has no defined result: such an access is
  \<open>None\<close> in the model, also for a negative index.
\<close>

definition in_bounds :: "'a list \<Rightarrow> int \<Rightarrow> bool" where
  "in_bounds xs i \<longleftrightarrow> 0 \<le> i \<and> i < int (length xs)"

text \<open>A loop whose body can fail stops at the first failure.\<close>

fun fold_option :: "('a \<Rightarrow> 's \<Rightarrow> 's option) \<Rightarrow> 'a list \<Rightarrow> 's \<Rightarrow> 's option" where
  "fold_option f [] s = Some s"
| "fold_option f (x # xs) s = (case f x s of None \<Rightarrow> None | Some s' \<Rightarrow> fold_option f xs s')"

text \<open>\<^verbatim>\<open>int(x)\<close> on a float: the fractional part is dropped, towards zero.\<close>

definition int_of_float :: "real \<Rightarrow> int" where
  "int_of_float x = (if 0 \<le> x then \<lfloor>x\<rfloor> else \<lceil>x\<rceil>)"

section \<open>Spike-A interpolation (calibration.py)\<close>

text \<open>The samples that \<^verbatim>\<open>interpolate_spike_A\<close> reads or writes.\<close>

definition spike_A_indices :: "int \<Rightarrow> int list" where
  "spike_A_indices position = [position - 1, position, position + 1, position + 2]"

definition interpolate_spike_A :: "real list \<Rightarrow> int \<Rightarrow> real list option" where
  "interpolate_spike_A waveform position =
     (if \<forall>i \<in> set (spike_A_indices position). in_bounds waveform i then
        (let a = int_of_float (waveform ! nat (position - 1));
             b = int_of_float (waveform ! nat (position + 2));
             waveform1 = waveform[nat position :=
                           waveform ! nat (position - 1) + 0.33 * real_of_int (b - a)];
             waveform2 = waveform1[nat (position + 1) :=
                           waveform1 ! nat (position - 1) + 0.66 * real_of_int (b - a)]
         in Some waveform2)
      else None)"

text \<open>
  The first capacitors are numpy integers (16-bit unsigned in the first-capacitor table,
  widened to 64 bits by the arithmetic with the constants); the kernels are modelled on
  all integers. \<^verbatim>\<open>%\<close> with a positive divisor is \<open>mod\<close>.
\<close>

definition spike_A_position :: "int \<Rightarrow> int \<Rightarrow> int" where
  "spike_A_position abspos current_fc =
     (abspos - current_fc + int N_CAPACITORS_PIXEL) mod int N_CAPACITORS_PIXEL"

definition abspos_first_case :: "int \<Rightarrow> int \<Rightarrow> int" where
  "abspos_first_case last_fc k =
     int N_CAPACITORS_CHANNEL + 1 - int N_SAMPLES - 2 - last_fc
       + k * int N_CAPACITORS_CHANNEL + int N_CAPACITORS_PIXEL"

definition abspos_second_case :: "int \<Rightarrow> int \<Rightarrow> int" where
  "abspos_second_case last_fc k = int N_SAMPLES - 1 + last_fc + k * int N_CAPACITORS_CHANNEL"

definition abspos_first_case_old_firmware :: "int \<Rightarrow> int \<Rightarrow> int" where
  "abspos_first_case_old_firmware last_fc k =
     int N_CAPACITORS_CHANNEL - int N_SAMPLES - 2 - last_fc
       + k * int N_CAPACITORS_CHANNEL + int N_CAPACITORS_PIXEL"

definition abspos_second_case_old_firmware :: "int \<Rightarrow> int \<Rightarrow> int" where
  "abspos_second_case_old_firmware last_fc k =
     int N_SAMPLES - 2 + last_fc + k * int N_CAPACITORS_CHANNEL"

text \<open>One round of the loop \<^verbatim>\<open>for k in range(4)\<close> of \<^verbatim>\<open>interpolate_spikes_pixel\<close>.\<close>

definition interpolate_spikes_pixel_round ::
  "int \<Rightarrow> int \<Rightarrow> int \<Rightarrow> real list \<Rightarrow> real list option" where
  "interpolate_spikes_pixel_round current_fc last_fc k waveform =
     (let LAST_IN_FIRST_HALF = int N_CAPACITORS_CHANNEL div 2 - 1;
          spike_A_position1 = spike_A_position (abspos_first_case last_fc k) current_fc;
          spike_A_position2 = spike_A_position (abspos_second_case last_fc k) current_fc
      in Option.bind
           (if 2 < spike_A_position1 \<and> spike_A_position1 < int N_SAMPLES - 2 then
              (let last_capacitor = (last_fc + int N_SAMPLES - 1) mod int N_CAPACITORS_CHANNEL
               in if last_capacitor mod 2 = 0 \<and> last_capacitor \<le> LAST_IN_FIRST_HALF
                  then interpolate_spike_A waveform spike_A_position1
                  else Some waveform)
            else Some waveform)
           (\<lambda>waveform.
              if 2 < spike_A_position2 \<and> spike_A_position2 < int N_SAMPLES - 2 then
                (let last_lc = last_fc + int N_SAMPLES - 1
                 in if last_lc mod 2 = 0
                       \<and> last_lc mod int N_CAPACITORS_CHANNEL \<le> int N_CAPACITORS_CHANNEL div 2 - 1
                    then interpolate_spike_A waveform spike_A_position2
                    else Some waveform)
              else Some waveform))"

definition interpolate_spikes_pixel :: "real list \<Rightarrow> int \<Rightarrow> int \<Rightarrow> real list option" where
  "interpolate_spikes_pixel waveform current_fc last_fc =
     fold_option (interpolate_spikes_pixel_round current_fc last_fc) [0, 1, 2, 3] waveform"

text \<open>The same round in \<^verbatim>\<open>interpolate_spikes_pixel_old_firmware\<close>.\<close>

definition interpolate_spikes_pixel_old_firmware_round ::
  "int \<Rightarrow> int \<Rightarrow> int \<Rightarrow> real list \<Rightarrow> real list option" where
  "interpolate_spikes_pixel_old_firmware_round current_fc last_fc k waveform =
     (let spike_A_position1 =
            spike_A_position (abspos_first_case_old_firmware last_fc k) current_fc;
          spike_A_position2 =
            spike_A_position (abspos_second_case_old_firmware last_fc k) current_fc
      in Option.bind
           (if 2 < spike_A_position1 \<and> spike_A_position1 < int N_SAMPLES - 2 then
              (let last_capacitor = (last_fc + int N_SAMPLES - 1) mod int N_CAPACITORS_CHANNEL
               in if last_capacitor mod 2 = 0
                     \<and> last_capacitor \<le> int N_CAPACITORS_CHANNEL div 2 - 2
                  then interpolate_spike_A waveform spike_A_position1
                  else Some waveform)
            else Some waveform)
           (\<lambda>waveform.
              if 2 < spike_A_position2 \<and> spike_A_position2 < int N_SAMPLES - 2 then
                (let last_lc = last_fc + int N_SAMPLES - 1
                 in if last_lc mod 2 = 0
                       \<and> last_lc mod int N_CAPACITORS_CHANNEL \<le> int N_CAPACITORS_CHANNEL div 2 - 1
                    then interpolate_spike_A waveform spike_A_position2
                    else Some waveform)
              else Some waveform))"

definition interpolate_spikes_pixel_old_firmware ::
  "real list \<Rightarrow> int \<Rightarrow> int \<Rightarrow> real list option" where
  "interpolate_spikes_pixel_old_firmware waveform current_fc last_fc =
     fold_option (interpolate_spikes_pixel_old_firmware_round current_fc last_fc)
       [0, 1, 2, 3] waveform"

text \<open>
  The qualification rule in the words of the specification: the candidate is away from the
  sample boundaries, and the last capacitor of the previous event is even and in the first
  half of its channel, up to \<open>bound\<close> (511 for the new firmware, 510 for the old one).
\<close>

definition spec_qualifies :: "int \<Rightarrow> int \<Rightarrow> int \<Rightarrow> bool" where
  "spec_qualifies bound fc_prev pos \<longleftrightarrow>
     2 < pos \<and> pos < 38 \<and> even (fc_prev + 39) \<and> (fc_prev + 39) mod 1024 \<le> bound"

text \<open>
  The positions at which a run of the pixel kernel calls \<^verbatim>\<open>interpolate_spike_A\<close>, in the
  order of the calls; \<open>spike_calls_run\<close> below relates them to the kernels.
\<close>

definition spike_calls_round :: "int \<Rightarrow> int \<Rightarrow> int \<Rightarrow> int list" where
  "spike_calls_round current_fc last_fc k =
     (let spike_A_position1 = spike_A_position (abspos_first_case last_fc k) current_fc;
          spike_A_position2 = spike_A_position (abspos_second_case last_fc k) current_fc;
          last_capacitor = (last_fc + int N_SAMPLES - 1) mod int N_CAPACITORS_CHANNEL;
          last_lc = last_fc + int N_SAMPLES - 1
      in (if 2 < spike_A_position1 \<and> spike_A_position1 < int N_SAMPLES - 2
             \<and> last_capacitor mod 2 = 0
             \<and> last_capacitor \<le> int N_CAPACITORS_CHANNEL div 2 - 1
          then [spike_A_position1] else [])
       @ (if 2 < spike_A_position2 \<and> spike_A_position2 < int N_SAMPLES - 2
             \<and> last_lc mod 2 = 0
             \<and> last_lc mod int N_CAPACITORS_CHANNEL \<le> int N_CAPACITORS_CHANNEL div 2 - 1
          then [spike_A_position2] else []))"

definition spike_calls :: "int \<Rightarrow> int \<Rightarrow> int list" where
  "spike_calls current_fc last_fc =
     concat (map (spike_calls_round current_fc last_fc) [0, 1, 2, 3])"

definition spike_calls_old_firmware_round :: "int \<Rightarrow> int \<Rightarrow> int \<Rightarrow> int list" where
  "spike_calls_old_firmware_round current_fc last_fc k =
     (let spike_A_position1 =
            spike_A_position (abspos_first_case_old_firmware last_fc k) current_fc;
          spike_A_position2 =
            spike_A_position (abspos_second_case_old_firmware last_fc k) current_fc;
          last_capacitor = (last_fc + int N_SAMPLES - 1) mod int N_CAPACITORS_CHANNEL;
          last_lc = last_fc + int N_SAMPLES - 1
      in (if 2 < spike_A_position1 \<and> spike_A_position1 < int N_SAMPLES - 2
             \<and> last_capacitor mod 2 = 0
             \<and> last_capacitor \<le> int N_CAPACITORS_CHANNEL div 2 - 2
          then [spike_A_position1] else [])
       @ (if 2 < spike_A_position2 \<and> spike_A_position2 < int N_SAMPLES - 2
             \<and> last_lc mod 2 = 0
             \<and> last_lc mod int N_CAPACITORS_CHANNEL \<le> int N_CAPACITORS_CHANNEL div 2 - 1
          then [spike_A_position2] else []))"

definition spike_calls_old_firmware :: "int \<Rightarrow> int \<Rightarrow> int list" where
  "spike_calls_old_firmware current_fc last_fc =
     concat (map (spike_calls_old_firmware_round current_fc last_fc) [0, 1, 2, 3])"

text \<open>
  The eight candidate positions of a run of the pixel kernel, in the order in which the
  loop \<^verbatim>\<open>for k in range(4)\<close> computes them: \<^verbatim>\<open>spike_A_position\<close> of the first and of the
  second case for each \<open>k\<close>.
\<close>

definition spike_candidates :: "int \<Rightarrow> int \<Rightarrow> int list" where
  "spike_candidates current_fc last_fc =
     concat (map (\<lambda>k. [spike_A_position (abspos_first_case last_fc k) current_fc,
                       spike_A_position (abspos_second_case last_fc k) current_fc])
               [0, 1, 2, 3])"

definition spike_candidates_old_firmware :: "int \<Rightarrow> int \<Rightarrow> int list" where
  "spike_candidates_old_firmware current_fc last_fc =
     concat (map (\<lambda>k. [spike_A_position (abspos_first_case_old_firmware last_fc k) current_fc,
                       spike_A_position (abspos_second_case_old_firmware last_fc k) current_fc])
               [0, 1, 2, 3])"

text \<open>A waveform of 40 samples whose neighbours of position 3 are 0.5 and 2.\<close>

definition spike_example :: "real list" where
  "spike_example = (replicate 40 0)[2 := 1 / 2, 5 := 2]"

section \<open>Time-lapse baseline correction (calibration.py)\<close>

text \<open>
  The clock counters and the last readout times are numpy \<^verbatim>\<open>uint64\<close> values: their
  difference wraps around. The table of last readout times has the fixed shape
  (N_GAINS, N_PIXELS, N_CAPACITORS_PIXEL); it is a function of the three indices, a row of
  it a function of the capacitor. Every capacitor index the kernels compute is reduced
  modulo N_CAPACITORS_PIXEL, so it is inside the row.
\<close>

type_synonym u64 = "64 word"
type_synonym readout_row = "nat \<Rightarrow> u64"
type_synonym readout_table = "nat \<Rightarrow> nat \<Rightarrow> readout_row"
type_synonym waveform_table = "nat \<Rightarrow> nat \<Rightarrow> real list"

definition CLOCK_FREQUENCY_KHZ :: real where "CLOCK_FREQUENCY_KHZ = 133000"

text \<open>
  \<^verbatim>\<open>ped_time\<close> is called with a time difference that is not negative. The compiled power
  \<^verbatim>\<open>0.0 ** (-0.22)\<close> is the float \<^verbatim>\<open>inf\<close>, which the model keeps as a value of its own.
\<close>

datatype float64 = Finite real | PosInf

definition ped_time :: "real \<Rightarrow> float64" where
  "ped_time timediff =
     (if timediff = 0 then PosInf else Finite (32.99 * timediff powr (- 0.22) - 11.9))"

fun float_min :: "float64 \<Rightarrow> real \<Rightarrow> real" where
  "float_min (Finite p) w = min p w"
| "float_min PosInf w = w"

text \<open>One round of the loop over the samples in \<^verbatim>\<open>apply_timelapse_correction_pixel\<close>.\<close>

definition apply_timelapse_correction_sample ::
  "int \<Rightarrow> u64 \<Rightarrow> readout_row \<Rightarrow> nat \<Rightarrow> real list \<Rightarrow> real list option" where
  "apply_timelapse_correction_sample first_capacitor time_now last_readout_time sample waveform =
     (let capacitor = (first_capacitor + int sample) mod int N_CAPACITORS_PIXEL;
          last_readout_time_cap = last_readout_time (nat capacitor)
      in if \<not> in_bounds waveform (int sample) then None
         else if last_readout_time_cap > 0 then
           (let time_diff = time_now - last_readout_time_cap;
                time_diff_ms = real (unat time_diff) / CLOCK_FREQUENCY_KHZ
            in if time_diff_ms < 100
               then Some (waveform[sample :=
                      waveform ! sample - float_min (ped_time time_diff_ms) (waveform ! sample)])
               else Some waveform)
         else Some waveform)"

definition apply_timelapse_correction_pixel ::
  "real list \<Rightarrow> int \<Rightarrow> u64 \<Rightarrow> readout_row \<Rightarrow> real list option" where
  "apply_timelapse_correction_pixel waveform first_capacitor time_now last_readout_time =
     fold_option (apply_timelapse_correction_sample first_capacitor time_now last_readout_time)
       [0..<N_SAMPLES] waveform"

text \<open>\<^verbatim>\<open>last_readout_time[capacitor % N_CAPACITORS_PIXEL] = time_now\<close>\<close>

definition stamp :: "u64 \<Rightarrow> int \<Rightarrow> readout_row \<Rightarrow> readout_row" where
  "stamp time_now capacitor last_readout_time =
     last_readout_time(nat (capacitor mod int N_CAPACITORS_PIXEL) := time_now)"

text \<open>\<^verbatim>\<open>range(start, end)\<close> over integers is \<open>[start..end - 1]\<close>.\<close>

definition update_last_readout_time :: "nat \<Rightarrow> int \<Rightarrow> u64 \<Rightarrow> readout_row \<Rightarrow> readout_row" where
  "update_last_readout_time pixel_in_module first_capacitor time_now last_readout_time =
     (let last_readout_time1 =
            fold (\<lambda>sample. stamp time_now (first_capacitor + sample))
              [0..int N_SAMPLES - 1] last_readout_time
      in if pixel_in_module mod 2 = 0 then
           (let first_capacitor_in_channel = first_capacitor mod int N_CAPACITORS_CHANNEL
            in if 767 < first_capacitor_in_channel \<and> first_capacitor_in_channel < 1013 then
                 (let start = first_capacitor + int N_CAPACITORS_CHANNEL;
                      end = start + 12
                  in fold (stamp time_now) [start..end - 1] last_readout_time1)
               else if first_capacitor_in_channel \<ge> 1013 then
                 (let start = first_capacitor + int N_CAPACITORS_CHANNEL;
                      channel = first_capacitor div int N_CAPACITORS_CHANNEL;
                      end = (channel + 2) * int N_CAPACITORS_CHANNEL
                  in fold (stamp time_now) [start..end - 1] last_readout_time1)
               else last_readout_time1)
         else last_readout_time1)"

definition update_last_readout_time_old_firmware ::
  "nat \<Rightarrow> int \<Rightarrow> u64 \<Rightarrow> readout_row \<Rightarrow> readout_row" where
  "update_last_readout_time_old_firmware pixel_in_module first_capacitor time_now
       last_readout_time =
     (let last_readout_time1 =
            fold (\<lambda>sample. stamp time_now (first_capacitor + sample))
              [- 1..int N_SAMPLES - 1 - 1] last_readout_time
      in if pixel_in_module mod 2 = 0 then
           (let first_capacitor_in_channel = first_capacitor mod int N_CAPACITORS_CHANNEL
            in if 766 < first_capacitor_in_channel \<and> first_capacitor_in_channel < 1013 then
                 (let start = first_capacitor + int N_CAPACITORS_CHANNEL - 1;
                      end = first_capacitor + int N_CAPACITORS_CHANNEL + 11
                  in fold (stamp time_now) [start..end - 1] last_readout_time1)
               else if first_capacitor_in_channel \<ge> 1013 then
                 (let start = first_capacitor + int N_CAPACITORS_CHANNEL;
                      channel = first_capacitor div int N_CAPACITORS_CHANNEL;
                      end = (channel + 2) * int N_CAPACITORS_CHANNEL
                  in fold (stamp time_now) [start..end - 1] last_readout_time1)
               else last_readout_time1)
         else last_readout_time1)"

text \<open>
  \<^verbatim>\<open>apply_timelapse_correction\<close>: the body of the three nested loops, for one
  (gain, module, pixel in module). The constant \<^verbatim>\<open>LAST_RUN_WITH_OLD_FIRMWARE\<close> is imported
  from a version of constants.py that is not among the sources; it is a parameter. A
  module without a clock counter, or a pixel id outside the tables, is an access out of
  bounds.
\<close>

definition apply_timelapse_correction_body ::
  "int \<Rightarrow> u64 list \<Rightarrow> (nat \<Rightarrow> nat \<Rightarrow> int) \<Rightarrow> nat list \<Rightarrow> int \<Rightarrow> nat \<times> nat \<times> nat
     \<Rightarrow> waveform_table \<times> readout_table \<Rightarrow> (waveform_table \<times> readout_table) option" where
  "apply_timelapse_correction_body LAST_RUN_WITH_OLD_FIRMWARE local_clock_counter
       first_capacitors expected_pixels_id run_id gmp state =
     (case (gmp, state) of ((gain, module', pixel_in_module), (waveform, last_readout_time)) \<Rightarrow>
        if length local_clock_counter \<le> module' then None
        else
          (let time_now = local_clock_counter ! module';
               pixel_index = module' * N_PIXELS_MODULE + pixel_in_module
           in if length expected_pixels_id \<le> pixel_index then None
              else
                (let pixel_id = expected_pixels_id ! pixel_index
                 in if N_PIXELS \<le> pixel_id then None
                    else
                      (case apply_timelapse_correction_pixel (waveform gain pixel_id)
                              (first_capacitors gain pixel_id) time_now
                              (last_readout_time gain pixel_id) of
                         None \<Rightarrow> None
                       | Some row \<Rightarrow>
                           Some (waveform(gain := (waveform gain)(pixel_id := row)),
                                 last_readout_time(gain := (last_readout_time gain)(pixel_id :=
                                   (if run_id > LAST_RUN_WITH_OLD_FIRMWARE
                                    then update_last_readout_time pixel_in_module
                                           (first_capacitors gain pixel_id) time_now
                                           (last_readout_time gain pixel_id)
                                    else update_last_readout_time_old_firmware pixel_in_module
                                           (first_capacitors gain pixel_id) time_now
                                           (last_readout_time gain pixel_id)))))))))"

definition timelapse_loop :: "nat list \<Rightarrow> (nat \<times> nat \<times> nat) list" where
  "timelapse_loop expected_pixels_id =
     (let n_modules = length expected_pixels_id div N_PIXELS_MODULE
      in concat (map (\<lambda>gain. concat (map (\<lambda>module'.
           map (\<lambda>pixel_in_module. (gain, module', pixel_in_module)) [0..<N_PIXELS_MODULE])
           [0..<n_modules])) [0..<N_GAINS]))"

definition apply_timelapse_correction ::
  "int \<Rightarrow> waveform_table \<Rightarrow> u64 list \<Rightarrow> (nat \<Rightarrow> nat \<Rightarrow> int) \<Rightarrow> readout_table \<Rightarrow> nat list \<Rightarrow> int
     \<Rightarrow> (waveform_table \<times> readout_table) option" where
  "apply_timelapse_correction LAST_RUN_WITH_OLD_FIRMWARE waveform local_clock_counter
       first_capacitors last_readout_time expected_pixels_id run_id =
     fold_option
       (apply_timelapse_correction_body LAST_RUN_WITH_OLD_FIRMWARE local_clock_counter
          first_capacitors expected_pixels_id run_id)
       (timelapse_loop expected_pixels_id) (waveform, last_readout_time)"

text \<open>
  The value of sample \<open>s\<close> after the correction of one pixel, from its value \<open>old\<close>
  before: the statement of the correction that the kernel is compared with.
\<close>

definition timelapse_sample_value :: "int \<Rightarrow> u64 \<Rightarrow> readout_row \<Rightarrow> nat \<Rightarrow> real \<Rightarrow> real" where
  "timelapse_sample_value fc t lrt s old =
    (let prev = lrt (nat ((fc + int s) mod 4096));
         dt_ms = real (unat (t - prev)) / 133000
     in if prev > 0 \<and> dt_ms < 100
        then (case ped_time dt_ms of Finite p \<Rightarrow> max (old - p) 0 | PosInf \<Rightarrow> 0)
        else old)"

section \<open>The last readout times across a reader session\<close>

text \<open>
  \<^verbatim>\<open>LSTR0Corrections.__init__\<close> creates the table of last readout times filled with zeros;
  \<^verbatim>\<open>time_lapse_corr\<close> runs \<^verbatim>\<open>apply_timelapse_correction\<close> on it for every event, and the
  kernel updates the table in place. What an event gives to the kernel is its waveform,
  the clock counters of the modules and the first capacitors. The history of a session is
  the list of the tables: the initial one, then the table after each event.
\<close>

record timelapse_event =
  event_waveform :: waveform_table
  event_local_clock_counter :: "u64 list"
  event_first_capacitors :: "nat \<Rightarrow> nat \<Rightarrow> int"

definition zero_readout_table :: readout_table where
  "zero_readout_table = (\<lambda>gain pixel capacitor. 0)"

fun last_readout_history ::
  "int \<Rightarrow> nat list \<Rightarrow> int \<Rightarrow> timelapse_event list \<Rightarrow> readout_table
     \<Rightarrow> readout_table list option" where
  "last_readout_history LAST_RUN_WITH_OLD_FIRMWARE expected_pixels_id run_id []
       last_readout_time = Some [last_readout_time]"
| "last_readout_history LAST_RUN_WITH_OLD_FIRMWARE expected_pixels_id run_id (e # es)
       last_readout_time =
     (case apply_timelapse_correction LAST_RUN_WITH_OLD_FIRMWARE (event_waveform e)
             (event_local_clock_counter e) (event_first_capacitors e) last_readout_time
             expected_pixels_id run_id of
        None \<Rightarrow> None
      | Some (waveform, last_readout_time') \<Rightarrow>
          (case last_readout_history LAST_RUN_WITH_OLD_FIRMWARE expected_pixels_id run_id es
                  last_readout_time' of
             None \<Rightarrow> None
           | Some history \<Rightarrow> Some (last_readout_time # history)))"

text \<open>
  The clock-counter stamps an event can write for a pixel: the pairs of a pixel id of a
  module and the clock counter of that module.
\<close>

definition event_stamps :: "nat list \<Rightarrow> u64 list \<Rightarrow> (nat \<times> u64) set" where
  "event_stamps expected_pixels_id local_clock_counter =
     {(expected_pixels_id ! (m * N_PIXELS_MODULE + k), local_clock_counter ! m) | m k.
        m < length expected_pixels_id div N_PIXELS_MODULE \<and> k < N_PIXELS_MODULE}"

definition row_stamped :: "u64 \<Rightarrow> readout_row \<Rightarrow> readout_row \<Rightarrow> bool" where
  "row_stamped t r r' \<longleftrightarrow> (\<forall>c. r' c = r c \<or> r' c = t)"

definition table_stamped :: "(nat \<times> u64) set \<Rightarrow> readout_table \<Rightarrow> readout_table \<Rightarrow> bool" where
  "table_stamped S l l' \<longleftrightarrow> (\<forall>g p c. l' g p c = l g p c \<or> (p, l' g p c) \<in> S)"

text \<open>
  A camera of one module, and two events of it whose clock counters are 10 and then 5.
\<close>

definition one_module :: "nat list" where
  "one_module = [0, 1, 2, 3, 4, 5, 6]"

definition event_at :: "u64 \<Rightarrow> timelapse_event" where
  "event_at t = \<lparr>event_waveform = (\<lambda>gain pixel. replicate 40 0),
                 event_local_clock_counter = [t],
                 event_first_capacitors = (\<lambda>gain pixel. 0)\<rparr>"

section \<open>The merger of the input files (multifiles.py)\<close>

text \<open>
  An event of the input files is known to the merger by its \<^verbatim>\<open>event_id\<close> only; the rest
  of the record is a payload. A camera configuration carries its \<^verbatim>\<open>configuration_id\<close>.
  An opened file (\<^verbatim>\<open>protozfits.File\<close>) has the table \<^verbatim>\<open>Events\<close> and may have the table
  \<^verbatim>\<open>CameraConfig\<close> (\<open>None\<close> when the attribute is missing); \<^verbatim>\<open>next\<close> on a table
  returns its next row and raises \<^verbatim>\<open>StopIteration\<close> at its end. The file system is a
  function from paths to files.
\<close>

type_synonym path = string

record 'p zfits_event =
  event_id :: nat
  event_payload :: 'p

record camera_configuration =
  configuration_id :: nat
  telescope_id :: nat

record 'p input_file =
  Events :: "'p zfits_event list"
  CameraConfig :: "camera_configuration list option"

text \<open>
  The four dictionaries of a \<^verbatim>\<open>MultiFiles\<close> object are association lists in insertion
  order, as Python dictionaries are: \<open>AList.update\<close> replaces the value of a key that is
  present and appends a new key, \<open>AList.delete\<close> is \<^verbatim>\<open>del\<close>. \<open>file_dict\<close> keeps,
  for each opened file, the rows that its \<^verbatim>\<open>Events\<close> iterator has not yet returned;
  \<open>events_table_dict\<close> keeps the whole table, whose \<^verbatim>\<open>len\<close> is the number of its rows.
\<close>

record 'p multifiles_dicts =
  file_dict :: "(path \<times> 'p zfits_event list) list"
  events_dict :: "(path \<times> 'p zfits_event) list"
  events_table_dict :: "(path \<times> 'p zfits_event list) list"
  camera_config_dict :: "(path \<times> camera_configuration) list"

record 'p multifiles = "'p multifiles_dicts" +
  camera_config :: camera_configuration

datatype multifiles_error = EmptyPaths | ConfigMismatch | NoConfig

datatype next_error = StopIteration | KeyError

text \<open>
  The body of the loop over the paths in \<^verbatim>\<open>__init__\<close>. The \<^verbatim>\<open>try\<close> block is left at
  the first \<^verbatim>\<open>StopIteration\<close>: of a file without events after the table is stored, of
  a file with an empty \<^verbatim>\<open>CameraConfig\<close> table after its first event is stored.
\<close>

definition open_input ::
  "(path \<Rightarrow> 'p input_file) \<Rightarrow> path \<Rightarrow> 'p multifiles_dicts \<Rightarrow> 'p multifiles_dicts" where
  "open_input fs path d =
     (let file = fs path;
          d1 = d\<lparr>file_dict := AList.update path (Events file) (file_dict d),
                 events_table_dict := AList.update path (Events file) (events_table_dict d)\<rparr>
      in case Events file of
           [] \<Rightarrow> d1
         | e # rest \<Rightarrow>
             (let d2 = d1\<lparr>file_dict := AList.update path rest (file_dict d1),
                          events_dict := AList.update path e (events_dict d1)\<rparr>
              in case CameraConfig file of
                   None \<Rightarrow> d2
                 | Some [] \<Rightarrow> d2
                 | Some (config # configs) \<Rightarrow>
                     d2\<lparr>camera_config_dict :=
                          AList.update path config (camera_config_dict d2)\<rparr>))"

definition empty_dicts :: "'p multifiles_dicts" where
  "empty_dicts = \<lparr>file_dict = [], events_dict = [], events_table_dict = [],
                   camera_config_dict = []\<rparr>"

definition MultiFiles_init ::
  "(path \<Rightarrow> 'p input_file) \<Rightarrow> path list \<Rightarrow> multifiles_error + 'p multifiles" where
  "MultiFiles_init fs paths =
     (if length paths = 0 then Inl EmptyPaths
      else
        (let d = fold (open_input fs) paths empty_dicts;
             run_ids = set (map (\<lambda>(path, config). configuration_id config)
                             (camera_config_dict d))
         in if card run_ids > 1 then Inl ConfigMismatch
            else if length (camera_config_dict d) = 0 then Inl NoConfig
            else Inr \<lparr>file_dict = file_dict d, events_dict = events_dict d,
                       events_table_dict = events_table_dict d,
                       camera_config_dict = camera_config_dict d,
                       camera_config = snd (hd (camera_config_dict d))\<rparr>))"

text \<open>
  \<^verbatim>\<open>min(items, key=...)\<close> returns the first of the items whose key is the least:
  \<open>min_item best items\<close> goes through the items with the best one so far.
\<close>

fun min_item ::
  "path \<times> 'p zfits_event \<Rightarrow> (path \<times> 'p zfits_event) list \<Rightarrow> path \<times> 'p zfits_event" where
  "min_item best [] = best"
| "min_item best (item # items) =
     (if event_id (snd item) < event_id (snd best) then min_item item items
      else min_item best items)"

definition next_event ::
  "'p multifiles \<Rightarrow> next_error + ('p zfits_event \<times> 'p multifiles)" where
  "next_event mf =
     (case events_dict mf of
        [] \<Rightarrow> Inl StopIteration
      | item # items \<Rightarrow>
          (let min_path = fst (min_item item items)
           in case map_of (events_dict mf) min_path of
                None \<Rightarrow> Inl KeyError
              | Some next_event \<Rightarrow>
                  (case map_of (file_dict mf) min_path of
                     None \<Rightarrow> Inl KeyError
                   | Some [] \<Rightarrow>
                       Inr (next_event,
                            mf\<lparr>events_dict := AList.delete min_path (events_dict mf)\<rparr>)
                   | Some (e # rest) \<Rightarrow>
                       Inr (next_event,
                            mf\<lparr>file_dict := AList.update min_path rest (file_dict mf),
                               events_dict := AList.update min_path e (events_dict mf)\<rparr>))))"

definition multifiles_len :: "'p multifiles \<Rightarrow> nat" where
  "multifiles_len mf = sum_list (map (\<lambda>(path, table). length table) (events_table_dict mf))"

text \<open>
  Iterating over the merger: \<^verbatim>\<open>next_event\<close> is called until it raises. The result is the
  list of the events returned, the error that ended the iteration and the final object.
\<close>

definition pending_size :: "'p multifiles \<Rightarrow> nat" where
  "pending_size mf =
     length (events_dict mf) + sum_list (map (\<lambda>(path, rows). length rows) (file_dict mf))"

function iterate ::
  "'p multifiles \<Rightarrow> 'p zfits_event list \<times> next_error \<times> 'p multifiles" where
  "iterate mf =
     (case next_event mf of
        Inl err \<Rightarrow> ([], err, mf)
      | Inr (e, mf') \<Rightarrow> (case iterate mf' of (es, result) \<Rightarrow> (e # es, result)))"
  by pat_completeness auto
termination
proof (relation "measure pending_size")
  show "wf (measure pending_size)" by simp
next
  fix mf :: "'p multifiles" and x e mf'
  assume n: "next_event mf = Inr x" and x: "(e, mf') = x"
  have del: "length (AList.delete k al) < length al" if "map_of al k = Some v"
    for k :: path and v :: "'p zfits_event" and al
    using that by (induction al) (auto simp: le_imp_less_Suc length_delete_le split: if_splits)
  have upd_len: "length (AList.update k v' al) = length al" if "map_of al k = Some v"
    for k :: path and v v' :: "'p zfits_event" and al
    using that by (induction al) (auto split: if_splits)
  have upd_sum: "sum_list (map (\<lambda>(path, rows). length rows) (AList.update k rest al)) < 
                 sum_list (map (\<lambda>(path, rows). length rows) al)"
    if "map_of al k = Some (v # rest)"
    for k :: path and v :: "'p zfits_event" and rest al
    using that by (induction al) (auto split: if_splits)
  have unf: "next_event mf =
     (if events_dict mf = [] then Inl StopIteration
      else
        (let min_path = fst (min_item (hd (events_dict mf)) (tl (events_dict mf)))
         in case map_of (events_dict mf) min_path of
              None \<Rightarrow> Inl KeyError
            | Some ne \<Rightarrow>
                (case map_of (file_dict mf) min_path of
                   None \<Rightarrow> Inl KeyError
                 | Some [] \<Rightarrow>
                     Inr (ne,
                          mf\<lparr>events_dict := AList.delete min_path (events_dict mf)\<rparr>)
                 | Some (e # rest) \<Rightarrow>
                     Inr (ne,
                          mf\<lparr>file_dict := AList.update min_path rest (file_dict mf),
                             events_dict := AList.update min_path e (events_dict mf)\<rparr>))))"
    unfolding next_event_def by (cases "events_dict mf") simp_all
  define k where "k = fst (min_item (hd (events_dict mf)) (tl (events_dict mf)))"
  from n obtain v rows where v: "map_of (events_dict mf) k = Some v"
    and rows: "map_of (file_dict mf) k = Some rows"
    unfolding unf Let_def k_def by (auto split: if_splits option.splits)
  have "pending_size mf' < pending_size mf"
  proof (cases rows)
    case Nil
    with n x v rows have "mf' = mf\<lparr>events_dict := AList.delete k (events_dict mf)\<rparr>"
      unfolding unf Let_def k_def by (auto split: if_splits)
    with del [OF v] show ?thesis by (simp add: pending_size_def)
  next
    case (Cons e' rest)
    with n x v rows have "mf' = mf\<lparr>file_dict := AList.update k rest (file_dict mf),
                             events_dict := AList.update k e' (events_dict mf)\<rparr>"
      unfolding unf Let_def k_def by (auto split: if_splits)
    with upd_len [OF v, of e'] upd_sum [OF rows [unfolded Cons]] show ?thesis
      by (simp add: pending_size_def)
  qed
  then show "(mf', mf) \<in> measure pending_size" by simp
qed

text \<open>The pending events of a merger: for every key, its current event and the rest of its file.\<close>

definition pending :: "'p multifiles \<Rightarrow> 'p zfits_event multiset" where
  "pending mf =
     (\<Sum>(path, e) \<leftarrow> events_dict mf.
        add_mset e (mset (case map_of (file_dict mf) path of None \<Rightarrow> [] | Some rows \<Rightarrow> rows)))"

declare iterate.simps [simp del]

text \<open>
  What the proofs keep about a merger: the keys of the current events are pairwise
  different, and every current event has a file whose remaining rows, after the current
  event, are in ascending order of \<^verbatim>\<open>event_id\<close>.
\<close>

definition merger_inv :: "'p multifiles \<Rightarrow> bool" where
  "merger_inv mf \<longleftrightarrow>
     distinct (map fst (events_dict mf))
     \<and> (\<forall>k e. map_of (events_dict mf) k = Some e \<longrightarrow>
           (\<exists>rows. map_of (file_dict mf) k = Some rows \<and> sorted (map event_id (e # rows))))"

text \<open>
  The camera configuration that \<^verbatim>\<open>__init__\<close> reads from a file: none when the file has
  no event, when it has no \<^verbatim>\<open>CameraConfig\<close> table or when that table is empty.
\<close>

definition first_config :: "'p input_file \<Rightarrow> camera_configuration option" where
  "first_config file =
     (case Events file of
        [] \<Rightarrow> None
      | e # rest \<Rightarrow>
          (case CameraConfig file of
             None \<Rightarrow> None
           | Some [] \<Rightarrow> None
           | Some (config # configs) \<Rightarrow> Some config))"

definition configs_read :: "(path \<Rightarrow> 'p input_file) \<Rightarrow> path list \<Rightarrow> camera_configuration list" where
  "configs_read fs paths =
     concat (map (\<lambda>path. case first_config (fs path) of None \<Rightarrow> [] | Some config \<Rightarrow> [config])
               paths)"

text \<open>
  The rows that remain to be read from the file of a path (none for a path without file).
\<close>

definition rows_of :: "'p multifiles \<Rightarrow> path \<Rightarrow> 'p zfits_event list" where
  "rows_of mf path = (case map_of (file_dict mf) path of None \<Rightarrow> [] | Some rows \<Rightarrow> rows)"

text \<open>
  Following the specification's words: the camera-configuration records present in the
  inputs, whether or not \<^verbatim>\<open>__init__\<close> reads them.
\<close>

definition configs_present ::
  "(path \<Rightarrow> 'p input_file) \<Rightarrow> path list \<Rightarrow> camera_configuration list" where
  "configs_present fs paths =
     concat (map (\<lambda>path. case CameraConfig (fs path) of None \<Rightarrow> [] | Some configs \<Rightarrow> configs)
               paths)"

text \<open>
  Three inputs: two with two events each, in ascending order, the first of them with a
  camera configuration; and one with a camera configuration and no event.
\<close>

definition example_event :: "nat \<Rightarrow> unit zfits_event" where
  "example_event n = \<lparr>event_id = n, event_payload = ()\<rparr>"

definition example_config :: camera_configuration where
  "example_config = \<lparr>configuration_id = 2008, telescope_id = 1\<rparr>"

definition example_inputs :: "path \<Rightarrow> unit input_file" where
  "example_inputs path =
     (if path = ''a'' then
        \<lparr>Events = [example_event 1, example_event 4], CameraConfig = Some [example_config]\<rparr>
      else if path = ''b'' then
        \<lparr>Events = [example_event 2, example_event 3], CameraConfig = None\<rparr>
      else
        \<lparr>Events = [], CameraConfig = Some [example_config]\<rparr>)"

section \<open>Pedestal subtraction (calibration.py)\<close>

text \<open>
  The pedestal table has one row of 16-bit signed integers for each gain and pixel. The
  tables are functions of gain and pixel; a row outside the shape of the array is empty.
\<close>

type_synonym int16 = "16 word"

type_synonym pedestal_table = "nat \<Rightarrow> nat \<Rightarrow> int16 list"

datatype pedestal_error = NoPedestalFile | ShapeMismatch

text \<open>
  A slice \<^verbatim>\<open>xs[start:stop]\<close>: a negative bound counts from the end, and both bounds are
  clipped to the length of the array.
\<close>

definition slice_bound :: "nat \<Rightarrow> int \<Rightarrow> nat" where
  "slice_bound n i = (if i < 0 then nat (max (i + int n) 0) else min (nat i) n)"

definition slice :: "'a list \<Rightarrow> int \<Rightarrow> int \<Rightarrow> 'a list" where
  "slice xs start stop =
     (let a = slice_bound (length xs) start;
          b = slice_bound (length xs) stop
      in take (b - a) (drop a xs))"

text \<open>
  \<^verbatim>\<open>_get_drs4_pedestal_data\<close>: the table of the file fills the first
  \<^verbatim>\<open>N_CAPACITORS_PIXEL\<close> columns, the first \<^verbatim>\<open>N_SAMPLES\<close> columns are repeated after them,
  and the offset is subtracted in 16-bit arithmetic. The table of the file is the argument
  (no path: \<open>None\<close>); a table whose shape is not that of the target is an error here.
\<close>

definition file_shape_ok :: "pedestal_table \<Rightarrow> bool" where
  "file_shape_ok data \<longleftrightarrow>
     list_all (\<lambda>gain. list_all (\<lambda>pixel. length (data gain pixel) = N_CAPACITORS_PIXEL)
                         [0..<N_PIXELS_MODULE * N_MODULES])
       [0..<N_GAINS]"

definition get_drs4_pedestal_data ::
  "pedestal_table option \<Rightarrow> int \<Rightarrow> pedestal_error + pedestal_table" where
  "get_drs4_pedestal_data path offset =
     (case path of
        None \<Rightarrow> Inl NoPedestalFile
      | Some data \<Rightarrow>
          if \<not> file_shape_ok data then Inl ShapeMismatch
          else
            Inr (\<lambda>gain pixel.
                   if gain < N_GAINS \<and> pixel < N_PIXELS_MODULE * N_MODULES then
                     (let row = data gain pixel;
                          pedestal_data = row @ slice row 0 (int N_SAMPLES)
                      in if offset \<noteq> 0
                         then map (\<lambda>x. x - word_of_int offset) pedestal_data
                         else pedestal_data)
                   else []))"

text \<open>
  \<^verbatim>\<open>waveform[gain, pixel_id] -= pedestal\<close>: the rows are subtracted sample by sample, a
  pedestal of one value is subtracted from every sample, and any other pair of lengths is
  an error.
\<close>

definition subtract_row :: "real list \<Rightarrow> int16 list \<Rightarrow> real list option" where
  "subtract_row row pedestal =
     (if length pedestal = length row then
        Some (map2 (\<lambda>x v. x - real_of_int (sint v)) row pedestal)
      else if length pedestal = 1 then
        Some (map (\<lambda>x. x - real_of_int (sint (hd pedestal))) row)
      else None)"

text \<open>The body of the loops of \<^verbatim>\<open>subtract_pedestal\<close>, and the two loops.\<close>

definition subtract_pedestal_pixel ::
  "(nat \<Rightarrow> nat \<Rightarrow> int) \<Rightarrow> pedestal_table \<Rightarrow> nat \<Rightarrow> nat \<Rightarrow> waveform_table
     \<Rightarrow> waveform_table option" where
  "subtract_pedestal_pixel first_capacitors pedestal_value_array gain pixel_id waveform =
     (let first_cap = first_capacitors gain pixel_id;
          pedestal = slice (pedestal_value_array gain pixel_id) first_cap
                       (first_cap + int N_SAMPLES)
      in case subtract_row (waveform gain pixel_id) pedestal of
           None \<Rightarrow> None
         | Some row \<Rightarrow> Some (waveform(gain := (waveform gain)(pixel_id := row))))"

definition subtract_pedestal ::
  "waveform_table \<Rightarrow> (nat \<Rightarrow> nat \<Rightarrow> int) \<Rightarrow> pedestal_table \<Rightarrow> waveform_table option" where
  "subtract_pedestal waveform first_capacitors pedestal_value_array =
     fold_option
       (\<lambda>gain. fold_option
                  (subtract_pedestal_pixel first_capacitors pedestal_value_array gain)
                  [0..<N_PIXELS])
       [0..<N_GAINS] waveform"

text \<open>
  An example: capacitor \<open>c\<close> has pedestal \<open>c\<close>, the offset is 400, every first capacitor
  is 4090 and every sample is 1000.
\<close>

definition example_pedestal_file :: pedestal_table where
  "example_pedestal_file gain pixel = map of_nat [0..<N_CAPACITORS_PIXEL]"

definition example_first_capacitors :: "nat \<Rightarrow> nat \<Rightarrow> int" where
  "example_first_capacitors gain pixel = 4090"

definition example_waveform :: waveform_table where
  "example_waveform gain pixel = replicate N_SAMPLES 1000"

section \<open>Filling the R0 and R1 containers (LSTEventSource in \<^verbatim>\<open>__init__.py\<close>)\<close>

text \<open>
  \<^verbatim>\<open>PixelStatus\<close> is an \<^verbatim>\<open>IntFlag\<close> whose members are numbered by \<^verbatim>\<open>auto()\<close>:
  \<^verbatim>\<open>HIGH_GAIN_STORED\<close> is the third and \<^verbatim>\<open>LOW_GAIN_STORED\<close> the fourth. The pixel status
  of an event is an array of bytes, its waveform a flat array of 16-bit unsigned integers.
\<close>

type_synonym uint8 = "8 word"

type_synonym uint16 = "16 word"

definition PixelStatus_HIGH_GAIN_STORED :: uint8 where
  "PixelStatus_HIGH_GAIN_STORED = 4"

definition PixelStatus_LOW_GAIN_STORED :: uint8 where
  "PixelStatus_LOW_GAIN_STORED = 8"

text \<open>
  The fields that \<^verbatim>\<open>fill_r0r1_camera_container\<close> reads from the event and from the camera
  configuration, and the fields that it fills in the two containers (a field that is not
  filled is \<open>None\<close>).
\<close>

record zfits_camera_event =
  zfits_pixel_status :: "uint8 list"
  zfits_waveform :: "uint16 list"

record lst_camera_config =
  num_pixels :: nat
  num_samples :: nat
  config_expected_pixels_id :: "nat list"

record r0r1 =
  r0_waveform :: "uint16 list list list option"
  r1_waveform :: "uint16 list list option"
  selected_gain_channel :: "int list option"

text \<open>
  The errors: a \<^verbatim>\<open>reshape\<close> that does not fit, the \<^verbatim>\<open>NotImplementedError\<close> of the source,
  and an indexed assignment with an index outside the array or with values that cannot be
  broadcast.
\<close>

datatype fill_error = ReshapeError | NotImplementedError | SetItemError

text \<open>
  \<^verbatim>\<open>reshape((-1, n))\<close> and \<^verbatim>\<open>reshape(a, b, c)\<close> of a flat array, in row-major order.
\<close>

definition reshape_rows :: "'a list \<Rightarrow> nat \<Rightarrow> 'a list list option" where
  "reshape_rows xs n =
     (if n = 0 \<or> length xs mod n \<noteq> 0 then None
      else Some (map (\<lambda>k. take n (drop (k * n) xs)) [0..<length xs div n]))"

definition reshape_gains :: "'a list \<Rightarrow> nat \<Rightarrow> nat \<Rightarrow> nat \<Rightarrow> 'a list list list option" where
  "reshape_gains xs a b c =
     (if length xs \<noteq> a * b * c then None
      else Some (map (\<lambda>g. map (\<lambda>p. take c (drop ((g * b + p) * c) xs)) [0..<b]) [0..<a]))"

text \<open>
  Broadcasting the values of an assignment to the shape of its target: an axis must have
  the length of the target or the length one.
\<close>

definition broadcast :: "nat \<Rightarrow> 'a list \<Rightarrow> 'a list option" where
  "broadcast n xs =
     (if length xs = n then Some xs
      else if length xs = 1 then Some (replicate n (hd xs))
      else None)"

definition broadcast_rows :: "nat \<Rightarrow> nat \<Rightarrow> 'a list list \<Rightarrow> 'a list list option" where
  "broadcast_rows k c rows =
     (if c \<noteq> N_SAMPLES \<and> c \<noteq> 1 then None
      else
        (case broadcast k rows of
           None \<Rightarrow> None
         | Some rs \<Rightarrow>
             Some (map (\<lambda>row. if c = N_SAMPLES then row else replicate N_SAMPLES (hd row)) rs)))"

text \<open>
  \<^verbatim>\<open>a[idx] = values\<close> with an array of indices: the values are stored from left to right,
  so that the last value stored at a repeated index stays.
\<close>

fun np_assign :: "'a list \<Rightarrow> nat list \<Rightarrow> 'a list \<Rightarrow> 'a list option" where
  "np_assign a [] [] = Some a"
| "np_assign a (i # idx) (v # vs) =
     (if i < length a then np_assign (a[i := v]) idx vs else None)"
| "np_assign a [] (v # vs) = None"
| "np_assign a (i # idx) [] = None"

definition np_setitem :: "'a list \<Rightarrow> nat list \<Rightarrow> 'a list option \<Rightarrow> 'a list option" where
  "np_setitem a idx values =
     (case values of None \<Rightarrow> None | Some vs \<Rightarrow> np_assign a idx vs)"

text \<open>\<^verbatim>\<open>fill_r0r1_camera_container\<close>, with \<^verbatim>\<open>self.camera_config\<close> as an argument.\<close>

definition fill_r0r1_camera_container ::
  "lst_camera_config \<Rightarrow> zfits_camera_event \<Rightarrow> fill_error + r0r1" where
  "fill_r0r1_camera_container self_camera_config zfits_event =
     (let n_pixels = num_pixels self_camera_config;
          n_samples = num_samples self_camera_config;
          expected_pixels = config_expected_pixels_id self_camera_config;
          has_low_gain = map (\<lambda>s. s AND PixelStatus_LOW_GAIN_STORED \<noteq> 0)
                           (zfits_pixel_status zfits_event);
          has_high_gain = map (\<lambda>s. s AND PixelStatus_HIGH_GAIN_STORED \<noteq> 0)
                            (zfits_pixel_status zfits_event);
          broken_pixels = map2 (\<lambda>low high. \<not> (low \<or> high)) has_low_gain has_high_gain;
          gain_selected = list_ex (\<lambda>(low, high). low \<noteq> high) (zip has_low_gain has_high_gain);
          fill = (- 1 :: uint16)
      in if gain_selected then
           (let selected_gain = map (\<lambda>high. if high then 0 else 1) has_high_gain
            in case reshape_rows (zfits_waveform zfits_event) n_samples of
                 None \<Rightarrow> Inl ReshapeError
               | Some waveform \<Rightarrow>
                   if list_ex (\<lambda>broken. broken) broken_pixels \<and> length waveform < n_pixels
                   then Inl NotImplementedError
                   else
                     (case np_setitem (replicate N_PIXELS (replicate N_SAMPLES fill))
                             expected_pixels
                             (broadcast_rows (length expected_pixels) n_samples waveform) of
                        None \<Rightarrow> Inl SetItemError
                      | Some reordered_waveform \<Rightarrow>
                          (case np_setitem (replicate N_PIXELS (- 1)) expected_pixels
                                  (broadcast (length expected_pixels) selected_gain) of
                             None \<Rightarrow> Inl SetItemError
                           | Some reordered_selected_gain \<Rightarrow>
                               Inr \<lparr>r0_waveform = None,
                                    r1_waveform = Some reordered_waveform,
                                    selected_gain_channel = Some reordered_selected_gain\<rparr>)))
         else
           (case reshape_gains (zfits_waveform zfits_event) N_GAINS n_pixels n_samples of
              None \<Rightarrow> Inl ReshapeError
            | Some reshaped_waveform \<Rightarrow>
                (case those (map (\<lambda>rows.
                               np_setitem (replicate N_PIXELS (replicate N_SAMPLES fill))
                                 expected_pixels
                                 (broadcast_rows (length expected_pixels) n_samples rows))
                             reshaped_waveform) of
                   None \<Rightarrow> Inl SetItemError
                 | Some reordered_waveform \<Rightarrow>
                     Inr \<lparr>r0_waveform = Some reordered_waveform,
                          r1_waveform = None,
                          selected_gain_channel = None\<rparr>)))"

text \<open>
  Following the specification's words: the status has \<^verbatim>\<open>HIGH_GAIN_STORED\<close> set and
  \<^verbatim>\<open>LOW_GAIN_STORED\<close> clear.
\<close>

definition spec_high_gain_only :: "uint8 \<Rightarrow> bool" where
  "spec_high_gain_only status \<longleftrightarrow>
     status AND PixelStatus_HIGH_GAIN_STORED \<noteq> 0 \<and> status AND PixelStatus_LOW_GAIN_STORED = 0"

text \<open>
  An example: three pixels, the first with the high gain stored, the second with both
  gains stored, the third with none (its samples are in the waveform).
\<close>

definition example_camera_config :: lst_camera_config where
  "example_camera_config =
     \<lparr>num_pixels = 3, num_samples = 40, config_expected_pixels_id = [0, 1, 2]\<rparr>"

definition example_camera_event :: zfits_camera_event where
  "example_camera_event =
     \<lparr>zfits_pixel_status = [4, 12, 0], zfits_waveform = replicate 120 0\<rparr>"


section \<open>Properties of the event-type classifier\<close>

lemmas TriggerBits_defs =
  TriggerBits_MONO_def TriggerBits_STEREO_def TriggerBits_CALIBRATION_def
  TriggerBits_SINGLE_PE_def TriggerBits_SOFTWARE_def TriggerBits_PEDESTAL_def
  TriggerBits_SLOW_CONTROL_def TriggerBits_PHYSICS_def TriggerBits_OTHER_def

lemma classification_table_all: "\<forall>b \<in> set [0..127]. classification_table b"
  unfolding classification_table_def event_type_from_trigger_bits_def TriggerBits_defs
  by code_simp

lemma software_is_unknown: "event_type_from_trigger_bits TriggerBits_SOFTWARE = UNKNOWN"
  unfolding event_type_from_trigger_bits_def TriggerBits_defs by simp

lemma chains_agree_all:
  "\<forall>b \<in> set [0..127].
     (fill_trigger_info_event_type b = event_type_from_trigger_bits b \<longleftrightarrow>
        (b AND (TriggerBits_CALIBRATION OR TriggerBits_SINGLE_PE OR TriggerBits_PEDESTAL)) = 0
        \<or> b = TriggerBits_CALIBRATION \<or> b = (TriggerBits_CALIBRATION OR TriggerBits_MONO)
        \<or> b = TriggerBits_SINGLE_PE \<or> b = TriggerBits_PEDESTAL)"
  unfolding fill_trigger_info_event_type_def event_type_from_trigger_bits_def TriggerBits_defs
  by code_simp

text \<open>
  Claim C5, as stated, fails for the older classifier, the chain at the end of
  \<^verbatim>\<open>fill_trigger_info\<close>: the 7-bit word 12 has the calibration and the single-pe flags set,
  it is neither CALIBRATION nor CALIBRATION|MONO, and the chain returns FLATFIELD.
\<close>

theorem event_type_classification_counterexample:
  "(0::int) \<le> 12 \<and> (12::int) < 128
   \<and> fill_trigger_info_event_type 12 = FLATFIELD
   \<and> (12::int) \<noteq> TriggerBits_CALIBRATION
   \<and> (12::int) \<noteq> (TriggerBits_CALIBRATION OR TriggerBits_MONO)"
  unfolding fill_trigger_info_event_type_def TriggerBits_defs by simp

text \<open>
  Claim C5, amended. For every 7-bit trigger word, \<^verbatim>\<open>_event_type_from_trigger_bits\<close> returns
  SUBARRAY exactly when a physics bit (MONO or STEREO) is set and no bit outside these two
  is set; FLATFIELD exactly for CALIBRATION and CALIBRATION|MONO; SKY_PEDESTAL exactly for
  PEDESTAL; SINGLE_PE exactly for SINGLE_PE; UNKNOWN in every other case, and in particular
  for SOFTWARE. The older chain at the end of \<^verbatim>\<open>fill_trigger_info\<close> returns the same event
  type exactly for the words in which none of the flags CALIBRATION, SINGLE_PE and PEDESTAL
  is set and for the four words CALIBRATION, CALIBRATION|MONO, SINGLE_PE and PEDESTAL.
\<close>

theorem event_type_classification:
  assumes "0 \<le> bits" and "bits < 128"
  shows "(event_type_from_trigger_bits bits = SUBARRAY \<longleftrightarrow>
            (bits AND (TriggerBits_MONO OR TriggerBits_STEREO)) \<noteq> 0
              \<and> (bits AND NOT (TriggerBits_MONO OR TriggerBits_STEREO)) = 0)
       \<and> (event_type_from_trigger_bits bits = FLATFIELD \<longleftrightarrow>
            bits = TriggerBits_CALIBRATION
              \<or> bits = (TriggerBits_CALIBRATION OR TriggerBits_MONO))
       \<and> (event_type_from_trigger_bits bits = SKY_PEDESTAL \<longleftrightarrow> bits = TriggerBits_PEDESTAL)
       \<and> (event_type_from_trigger_bits bits = SINGLE_PE \<longleftrightarrow> bits = TriggerBits_SINGLE_PE)
       \<and> (event_type_from_trigger_bits bits = UNKNOWN \<longleftrightarrow>
            \<not> ((bits AND (TriggerBits_MONO OR TriggerBits_STEREO)) \<noteq> 0
                 \<and> (bits AND NOT (TriggerBits_MONO OR TriggerBits_STEREO)) = 0)
            \<and> bits \<noteq> TriggerBits_CALIBRATION
            \<and> bits \<noteq> (TriggerBits_CALIBRATION OR TriggerBits_MONO)
            \<and> bits \<noteq> TriggerBits_PEDESTAL
            \<and> bits \<noteq> TriggerBits_SINGLE_PE)
       \<and> event_type_from_trigger_bits TriggerBits_SOFTWARE = UNKNOWN
       \<and> (fill_trigger_info_event_type bits = event_type_from_trigger_bits bits \<longleftrightarrow>
            (bits AND (TriggerBits_CALIBRATION OR TriggerBits_SINGLE_PE OR TriggerBits_PEDESTAL))
              = 0
            \<or> bits = TriggerBits_CALIBRATION
            \<or> bits = (TriggerBits_CALIBRATION OR TriggerBits_MONO)
            \<or> bits = TriggerBits_SINGLE_PE \<or> bits = TriggerBits_PEDESTAL)"
proof -
  from assms have b: "bits \<in> set [0..127]" by simp
  with classification_table_all have "classification_table bits" by blast
  moreover from b chains_agree_all
  have "fill_trigger_info_event_type bits = event_type_from_trigger_bits bits \<longleftrightarrow>
            (bits AND (TriggerBits_CALIBRATION OR TriggerBits_SINGLE_PE OR TriggerBits_PEDESTAL))
              = 0
            \<or> bits = TriggerBits_CALIBRATION
            \<or> bits = (TriggerBits_CALIBRATION OR TriggerBits_MONO)
            \<or> bits = TriggerBits_SINGLE_PE \<or> bits = TriggerBits_PEDESTAL"
    by blast
  ultimately show ?thesis
    unfolding classification_table_def using software_is_unknown by blast
qed

text \<open>
  The theorem at the word 5 (CALIBRATION|MONO), a flat-field event for both classifiers.
\<close>

theorem event_type_classification_witness:
  "(0::int) \<le> 5 \<and> (5::int) < 128
     \<and> (event_type_from_trigger_bits 5 = FLATFIELD \<longleftrightarrow>
            (5::int) = TriggerBits_CALIBRATION
              \<or> (5::int) = (TriggerBits_CALIBRATION OR TriggerBits_MONO))
     \<and> event_type_from_trigger_bits 5 = FLATFIELD
     \<and> fill_trigger_info_event_type 5 = FLATFIELD"
proof -
  have a: "(0::int) \<le> 5" "(5::int) < 128" by simp_all
  note t = event_type_classification [OF a]
  from t have i: "event_type_from_trigger_bits 5 = FLATFIELD \<longleftrightarrow>
          (5::int) = TriggerBits_CALIBRATION
            \<or> (5::int) = (TriggerBits_CALIBRATION OR TriggerBits_MONO)"
    by blast
  have five: "(5::int) = (TriggerBits_CALIBRATION OR TriggerBits_MONO)"
    unfolding TriggerBits_defs by simp
  with i have f: "event_type_from_trigger_bits 5 = FLATFIELD" by blast
  from t five have "fill_trigger_info_event_type 5 = event_type_from_trigger_bits 5"
    by blast
  with f have "fill_trigger_info_event_type 5 = FLATFIELD" by simp
  with i f a show ?thesis by blast
qed

section \<open>Properties of the spike-A stage\<close>

lemmas N_defs = N_GAINS_def N_MODULES_def N_PIXELS_MODULE_def N_PIXELS_def
  N_CAPACITORS_CHANNEL_def N_CAPACITORS_PIXEL_def N_SAMPLES_def

lemma fold_option_append:
  "fold_option f (xs @ ys) s = Option.bind (fold_option f xs s) (fold_option f ys)"
  by (induction xs arbitrary: s) (auto split: option.splits)

lemma round_calls:
  "interpolate_spikes_pixel_round current_fc last_fc k waveform =
     fold_option (\<lambda>p w. interpolate_spike_A w p) (spike_calls_round current_fc last_fc k) waveform"
  unfolding interpolate_spikes_pixel_round_def spike_calls_round_def Let_def
  by (auto split: option.splits simp: Option.bind_def)

lemma round_calls_old:
  "interpolate_spikes_pixel_old_firmware_round current_fc last_fc k waveform =
     fold_option (\<lambda>p w. interpolate_spike_A w p)
       (spike_calls_old_firmware_round current_fc last_fc k) waveform"
  unfolding interpolate_spikes_pixel_old_firmware_round_def spike_calls_old_firmware_round_def Let_def
  by (auto split: option.splits simp: Option.bind_def)

lemma fold_option_concat:
  assumes "\<And>k w. f k w = fold_option g (h k) w"
  shows "fold_option f ks w = fold_option g (concat (map h ks)) w"
proof (induction ks arbitrary: w)
  case Nil then show ?case by simp
next
  case (Cons k ks)
  show ?case
  proof (cases "f k w")
    case None
    then have "fold_option g (h k) w = None" using assms [of k w] by simp
    with None show ?thesis by (simp add: fold_option_append)
  next
    case (Some w')
    then have "fold_option g (h k) w = Some w'" using assms [of k w] by simp
    with Some Cons.IH [of w'] show ?thesis by (simp add: fold_option_append)
  qed
qed

lemma spike_calls_run:
  "interpolate_spikes_pixel waveform current_fc last_fc =
     fold_option (\<lambda>p w. interpolate_spike_A w p) (spike_calls current_fc last_fc) waveform"
  unfolding interpolate_spikes_pixel_def spike_calls_def
  by (rule fold_option_concat) (rule round_calls)

lemma spike_calls_old_firmware_run:
  "interpolate_spikes_pixel_old_firmware waveform current_fc last_fc =
     fold_option (\<lambda>p w. interpolate_spike_A w p) (spike_calls_old_firmware current_fc last_fc) waveform"
  unfolding interpolate_spikes_pixel_old_firmware_def spike_calls_old_firmware_def
  by (rule fold_option_concat) (rule round_calls_old)

lemma even_mod_1024: "(x::int) mod 1024 mod 2 = 0 \<longleftrightarrow> even x"
  by presburger

lemma le_510_511: "even (x::int) \<Longrightarrow> x mod 1024 \<le> 511 \<longleftrightarrow> x mod 1024 \<le> 510"
  by presburger


lemma spec_qualifies_new_first:
  "2 < pos \<and> pos < int N_SAMPLES - 2
     \<and> ((last_fc + int N_SAMPLES - 1) mod int N_CAPACITORS_CHANNEL) mod 2 = 0
     \<and> (last_fc + int N_SAMPLES - 1) mod int N_CAPACITORS_CHANNEL \<le> int N_CAPACITORS_CHANNEL div 2 - 1
   \<longleftrightarrow> spec_qualifies 511 last_fc pos"
  unfolding spec_qualifies_def N_defs by (simp add: even_mod_1024 algebra_simps) 

lemma spec_qualifies_new_second:
  "2 < pos \<and> pos < int N_SAMPLES - 2
     \<and> (last_fc + int N_SAMPLES - 1) mod 2 = 0
     \<and> (last_fc + int N_SAMPLES - 1) mod int N_CAPACITORS_CHANNEL \<le> int N_CAPACITORS_CHANNEL div 2 - 1
   \<longleftrightarrow> spec_qualifies 511 last_fc pos"
  unfolding spec_qualifies_def N_defs by (simp add: algebra_simps even_iff_mod_2_eq_zero)

lemma spec_qualifies_old_first:
  "2 < pos \<and> pos < int N_SAMPLES - 2
     \<and> ((last_fc + int N_SAMPLES - 1) mod int N_CAPACITORS_CHANNEL) mod 2 = 0
     \<and> (last_fc + int N_SAMPLES - 1) mod int N_CAPACITORS_CHANNEL \<le> int N_CAPACITORS_CHANNEL div 2 - 2
   \<longleftrightarrow> spec_qualifies 510 last_fc pos"
  unfolding spec_qualifies_def N_defs by (simp add: even_mod_1024 algebra_simps)

lemma spec_qualifies_old_second:
  "2 < pos \<and> pos < int N_SAMPLES - 2
     \<and> (last_fc + int N_SAMPLES - 1) mod 2 = 0
     \<and> (last_fc + int N_SAMPLES - 1) mod int N_CAPACITORS_CHANNEL \<le> int N_CAPACITORS_CHANNEL div 2 - 1
   \<longleftrightarrow> spec_qualifies 510 last_fc pos"
proof -
  have "even (last_fc + 39) \<Longrightarrow> (last_fc + 39) mod 1024 \<le> 511 \<longleftrightarrow> (last_fc + 39) mod 1024 \<le> 510"
    by (rule le_510_511)
  then show ?thesis
    unfolding spec_qualifies_def N_defs by (auto simp: algebra_simps even_iff_mod_2_eq_zero)
qed

lemma spike_calls_round_filter:
  "spike_calls_round current_fc last_fc k =
     filter (spec_qualifies 511 last_fc)
       [spike_A_position (abspos_first_case last_fc k) current_fc,
        spike_A_position (abspos_second_case last_fc k) current_fc]"
  unfolding spike_calls_round_def Let_def
  using spec_qualifies_new_first [of _ last_fc] spec_qualifies_new_second [of _ last_fc]
  by (simp add: conj_assoc)

lemma spike_calls_old_firmware_round_filter:
  "spike_calls_old_firmware_round current_fc last_fc k =
     filter (spec_qualifies 510 last_fc)
       [spike_A_position (abspos_first_case_old_firmware last_fc k) current_fc,
        spike_A_position (abspos_second_case_old_firmware last_fc k) current_fc]"
  unfolding spike_calls_old_firmware_round_def Let_def
  using spec_qualifies_old_first [of _ last_fc] spec_qualifies_old_second [of _ last_fc]
  by (simp add: conj_assoc)

lemma spike_calls_filter:
  "spike_calls current_fc last_fc =
     filter (spec_qualifies 511 last_fc) (spike_candidates current_fc last_fc)"
  unfolding spike_calls_def spike_candidates_def spike_calls_round_filter
  by (simp add: filter_concat comp_def)

lemma spike_calls_old_firmware_filter:
  "spike_calls_old_firmware current_fc last_fc =
     filter (spec_qualifies 510 last_fc) (spike_candidates_old_firmware current_fc last_fc)"
  unfolding spike_calls_old_firmware_def spike_candidates_old_firmware_def
    spike_calls_old_firmware_round_filter
  by (simp add: filter_concat comp_def)

text \<open>
  Claim C3. For all first capacitors of the current and of the previous event, a run of
  \<^verbatim>\<open>interpolate_spikes_pixel\<close> is the sequence of the calls of \<^verbatim>\<open>interpolate_spike_A\<close> at
  those of its eight candidate positions (the first and the second case for each of the
  four loop indices, in the order of the loop) that qualify, and at no other position: a
  candidate \<open>pos\<close> qualifies exactly when \<open>2 < pos < 38\<close> and the last capacitor of the
  previous event (\<open>fc_prev + 39\<close>) is even and in the first half of its 1024-capacitor
  channel, at most 511. The same holds for \<^verbatim>\<open>interpolate_spikes_pixel_old_firmware\<close> with
  its candidates and the bound 510.
\<close>

theorem spike_candidate_qualification:
  "interpolate_spikes_pixel waveform current_fc last_fc =
     fold_option (\<lambda>position w. interpolate_spike_A w position)
       (filter (spec_qualifies 511 last_fc) (spike_candidates current_fc last_fc)) waveform
   \<and> interpolate_spikes_pixel_old_firmware waveform current_fc last_fc =
     fold_option (\<lambda>position w. interpolate_spike_A w position)
       (filter (spec_qualifies 510 last_fc) (spike_candidates_old_firmware current_fc last_fc))
       waveform
   \<and> length (spike_candidates current_fc last_fc) = 8
   \<and> length (spike_candidates_old_firmware current_fc last_fc) = 8"
  using spike_calls_run [of waveform current_fc last_fc]
    spike_calls_old_firmware_run [of waveform current_fc last_fc]
  unfolding spike_calls_filter spike_calls_old_firmware_filter
  by (simp add: spike_candidates_def spike_candidates_old_firmware_def)

lemma spike_candidates_37_1:
  "filter (spec_qualifies 511 1) (spike_candidates 37 1) = [3]"
  by code_simp

lemma spike_candidates_old_firmware_36_1:
  "filter (spec_qualifies 510 1) (spike_candidates_old_firmware 36 1) = [3]"
  by code_simp

lemma spike_example_result:
  "interpolate_spike_A spike_example 3 = Some (spike_example[3 := 29 / 25, 4 := 91 / 50])"
  unfolding interpolate_spike_A_def spike_example_def spike_A_indices_def in_bounds_def
    int_of_float_def Let_def
  by simp

lemma spike_example_changed:
  "spike_example[3 := 29 / 25, 4 := 91 / 50] ! 3 \<noteq> spike_example ! 3"
  unfolding spike_example_def by simp

text \<open>
  The theorem at first capacitors for which exactly one candidate, position 3, qualifies
  (37 and 1 for the new firmware, 36 and 1 for the old one): the kernels interpolate the
  samples 3 and 4 of the example from its neighbours 0.5 and 2, and sample 3 changes.
\<close>

theorem spike_candidate_qualification_witness:
  "filter (spec_qualifies 511 1) (spike_candidates 37 1) = [3]
   \<and> filter (spec_qualifies 510 1) (spike_candidates_old_firmware 36 1) = [3]
   \<and> interpolate_spikes_pixel spike_example 37 1
       = Some (spike_example[3 := 29 / 25, 4 := 91 / 50])
   \<and> interpolate_spikes_pixel_old_firmware spike_example 36 1
       = Some (spike_example[3 := 29 / 25, 4 := 91 / 50])
   \<and> spike_example[3 := 29 / 25, 4 := 91 / 50] ! 3 \<noteq> spike_example ! 3"
proof -
  have "interpolate_spikes_pixel spike_example 37 1
          = Some (spike_example[3 := 29 / 25, 4 := 91 / 50])"
    using spike_candidate_qualification [of spike_example 37 1]
    by (simp add: spike_candidates_37_1 spike_example_result)
  moreover have "interpolate_spikes_pixel_old_firmware spike_example 36 1
          = Some (spike_example[3 := 29 / 25, 4 := 91 / 50])"
    using spike_candidate_qualification [of spike_example 36 1]
    by (simp add: spike_candidates_old_firmware_36_1 spike_example_result)
  ultimately show ?thesis
    using spike_candidates_37_1 spike_candidates_old_firmware_36_1 spike_example_changed
    by blast
qed

lemma interpolate_spike_A_length:
  "interpolate_spike_A w p = Some w' \<Longrightarrow> length w' = length w"
  unfolding interpolate_spike_A_def Let_def by (auto split: if_splits)

lemma interpolate_spike_A_total:
  assumes "length w = N_SAMPLES" and "2 < p" and "p < 38"
  shows "\<exists>w'. interpolate_spike_A w p = Some w' \<and> length w' = N_SAMPLES"
  using assms
  unfolding interpolate_spike_A_def Let_def spike_A_indices_def in_bounds_def N_defs by simp

lemma fold_interpolate_total:
  assumes "\<forall>p \<in> set ps. 2 < p \<and> p < 38" and "length w = N_SAMPLES"
  shows "\<exists>w'. fold_option (\<lambda>p w. interpolate_spike_A w p) ps w = Some w' \<and> length w' = N_SAMPLES"
  using assms
proof (induction ps arbitrary: w)
  case Nil then show ?case by simp
next
  case (Cons p ps)
  then obtain w1 where w1: "interpolate_spike_A w p = Some w1" "length w1 = N_SAMPLES"
    using interpolate_spike_A_total [of w p] by auto
  with Cons.IH [of w1] Cons.prems show ?case by simp
qed

lemma spike_calls_range:
  "p \<in> set (spike_calls current_fc last_fc) \<Longrightarrow> 2 < p \<and> p < 38"
  unfolding spike_calls_def spike_calls_round_def Let_def N_defs
  by (auto split: if_splits)

lemma spike_calls_old_firmware_range:
  "p \<in> set (spike_calls_old_firmware current_fc last_fc) \<Longrightarrow> 2 < p \<and> p < 38"
  unfolding spike_calls_old_firmware_def spike_calls_old_firmware_round_def Let_def N_defs
  by (auto split: if_splits)

lemma spike_A_indices_range:
  assumes "2 < p" and "p < 38" and "length w = N_SAMPLES"
  shows "\<forall>i \<in> set (spike_A_indices p). 1 \<le> i \<and> i \<le> 39 \<and> in_bounds w i"
  using assms unfolding spike_A_indices_def in_bounds_def N_defs by simp

text \<open>
  Claim C10. For all first capacitors, in both firmware variants, every position at which
  the pixel kernel calls \<^verbatim>\<open>interpolate_spike_A\<close> is strictly between 2 and 38, so the
  four samples the call touches have indices between 1 and 39 and lie inside the waveform
  of 40 samples; the kernels never read or write out of bounds and return a waveform of
  40 samples.
\<close>

theorem spike_stage_in_bounds:
  assumes "length waveform = N_SAMPLES"
  shows "interpolate_spikes_pixel waveform current_fc last_fc =
           fold_option (\<lambda>p w. interpolate_spike_A w p) (spike_calls current_fc last_fc) waveform
       \<and> interpolate_spikes_pixel_old_firmware waveform current_fc last_fc =
           fold_option (\<lambda>p w. interpolate_spike_A w p)
             (spike_calls_old_firmware current_fc last_fc) waveform
       \<and> (\<forall>position \<in> set (spike_calls current_fc last_fc)
                          \<union> set (spike_calls_old_firmware current_fc last_fc).
            2 < position \<and> position < 38
            \<and> (\<forall>i \<in> set (spike_A_indices position). 1 \<le> i \<and> i \<le> 39 \<and> in_bounds waveform i))
       \<and> (\<exists>w. interpolate_spikes_pixel waveform current_fc last_fc = Some w
                \<and> length w = N_SAMPLES)
       \<and> (\<exists>w. interpolate_spikes_pixel_old_firmware waveform current_fc last_fc = Some w
                \<and> length w = N_SAMPLES)"
proof -
  have r: "\<forall>p \<in> set (spike_calls current_fc last_fc). 2 < p \<and> p < 38"
    using spike_calls_range by blast
  have ro: "\<forall>p \<in> set (spike_calls_old_firmware current_fc last_fc). 2 < p \<and> p < 38"
    using spike_calls_old_firmware_range by blast
  have "\<forall>position \<in> set (spike_calls current_fc last_fc)
                          \<union> set (spike_calls_old_firmware current_fc last_fc).
            2 < position \<and> position < 38
            \<and> (\<forall>i \<in> set (spike_A_indices position). 1 \<le> i \<and> i \<le> 39 \<and> in_bounds waveform i)"
    using r ro spike_A_indices_range [OF _ _ assms] by blast
  moreover have "\<exists>w. interpolate_spikes_pixel waveform current_fc last_fc = Some w
                \<and> length w = N_SAMPLES"
    unfolding spike_calls_run using fold_interpolate_total [OF r assms] .
  moreover have "\<exists>w. interpolate_spikes_pixel_old_firmware waveform current_fc last_fc = Some w
                \<and> length w = N_SAMPLES"
    unfolding spike_calls_old_firmware_run using fold_interpolate_total [OF ro assms] .
  ultimately show ?thesis
    using spike_calls_run spike_calls_old_firmware_run by blast
qed

lemma spike_example_length: "length spike_example = N_SAMPLES"
  unfolding spike_example_def N_defs by simp

lemma spike_calls_30_1: "spike_calls 30 1 = [10]"
  by code_simp

theorem spike_stage_in_bounds_witness:
  "length spike_example = N_SAMPLES
   \<and> 10 \<in> set (spike_calls 30 1)
   \<and> list_all (\<lambda>i. 1 \<le> i \<and> i \<le> 39 \<and> in_bounds spike_example i) (spike_A_indices 10)
   \<and> (\<exists>w. interpolate_spikes_pixel spike_example 30 1 = Some w \<and> length w = N_SAMPLES)"
proof -
  note t = spike_stage_in_bounds [OF spike_example_length, of 30 1]
  have m: "10 \<in> set (spike_calls 30 1)" by (simp add: spike_calls_30_1)
  from t m have "\<forall>i \<in> set (spike_A_indices 10). 1 \<le> i \<and> i \<le> 39 \<and> in_bounds spike_example i"
    by blast
  then have "list_all (\<lambda>i. 1 \<le> i \<and> i \<le> 39 \<and> in_bounds spike_example i) (spike_A_indices 10)"
    by (simp add: list_all_iff)
  moreover from t
  have "\<exists>w. interpolate_spikes_pixel spike_example 30 1 = Some w \<and> length w = N_SAMPLES"
    by blast
  ultimately show ?thesis using m spike_example_length by blast
qed

lemma spike_calls_37_1: "spike_calls 37 1 = [3]"
  by code_simp

text \<open>
  Claim C8 as stated fails: the difference of the neighbours is taken after \<^verbatim>\<open>int()\<close>
  has dropped their fractional parts. With neighbours 0.5 and 2 at position 3 (a
  qualifying position for first capacitors 37 and 1) the code writes
  \<open>0.5 + 0.33 * (2 - 0) = 1.16\<close>, not \<open>0.5 + 0.33 * (2 - 0.5)\<close>.
\<close>

theorem spike_A_values_counterexample:
  "spike_calls 37 1 = [3]
   \<and> interpolate_spikes_pixel spike_example 37 1
       = Some (spike_example[3 := 29 / 25, 4 := 91 / 50])
   \<and> spike_example ! 2 = 1 / 2 \<and> spike_example ! 5 = 2
   \<and> (29 / 25 :: real) \<noteq> 1 / 2 + 0.33 * (2 - 1 / 2)"
proof -
  have "interpolate_spikes_pixel spike_example 37 1
       = Some (spike_example[3 := 29 / 25, 4 := 91 / 50])"
    unfolding spike_calls_run spike_calls_37_1 by (simp add: spike_example_result)
  moreover have "spike_example ! 2 = 1 / 2 \<and> spike_example ! 5 = 2"
    unfolding spike_example_def by simp
  ultimately show ?thesis using spike_calls_37_1 by simp
qed

text \<open>
  Claim C8, amended. When the four samples are inside the waveform,
  \<^verbatim>\<open>interpolate_spike_A\<close> overwrites the samples at \<open>pos\<close> and \<open>pos + 1\<close> with
  \<open>w[pos-1] + 0.33 * (int(w[pos+2]) - int(w[pos-1]))\<close> and
  \<open>w[pos-1] + 0.66 * (int(w[pos+2]) - int(w[pos-1]))\<close>, where \<open>int\<close> truncates
  towards zero and \<open>w\<close> is the waveform before the call; every other sample is unchanged.
  When both neighbours are whole numbers these are the values
  \<open>w[pos-1] + 0.33 * (w[pos+2] - w[pos-1])\<close> and \<open>w[pos-1] + 0.66 * (w[pos+2] - w[pos-1])\<close>.
\<close>

theorem spike_A_values_truncated:
  assumes "\<forall>i \<in> set (spike_A_indices pos). in_bounds w i"
  shows "\<exists>w'. interpolate_spike_A w pos = Some w' \<and> length w' = length w
     \<and> w' ! nat pos = w ! nat (pos - 1)
         + 0.33 * real_of_int (int_of_float (w ! nat (pos + 2)) - int_of_float (w ! nat (pos - 1)))
     \<and> w' ! nat (pos + 1) = w ! nat (pos - 1)
         + 0.66 * real_of_int (int_of_float (w ! nat (pos + 2)) - int_of_float (w ! nat (pos - 1)))
     \<and> (\<forall>i < length w. i \<noteq> nat pos \<and> i \<noteq> nat (pos + 1) \<longrightarrow> w' ! i = w ! i)
     \<and> (w ! nat (pos - 1) \<in> \<int> \<and> w ! nat (pos + 2) \<in> \<int> \<longrightarrow>
          w' ! nat pos = w ! nat (pos - 1) + 0.33 * (w ! nat (pos + 2) - w ! nat (pos - 1))
          \<and> w' ! nat (pos + 1) = w ! nat (pos - 1) + 0.66 * (w ! nat (pos + 2) - w ! nat (pos - 1)))"
proof -
  from assms have b: "1 \<le> pos" "pos + 2 < int (length w)"
    unfolding spike_A_indices_def in_bounds_def by auto
  have trunc: "real_of_int (int_of_float x) = x" if "x \<in> \<int>" for x
    using that unfolding int_of_float_def by (auto elim!: Ints_cases)
  define w' where "w' = (w[nat pos := w ! nat (pos - 1) + 0.33 * real_of_int (int_of_float (w ! nat (pos + 2)) - int_of_float (w ! nat (pos - 1)))])
       [nat (pos + 1) := w ! nat (pos - 1) + 0.66 * real_of_int (int_of_float (w ! nat (pos + 2)) - int_of_float (w ! nat (pos - 1)))]"
  have e: "interpolate_spike_A w pos = Some w'"
    using assms b unfolding interpolate_spike_A_def Let_def w'_def
    by (simp add: nat_diff_distrib)
  have n: "nat pos < length w" "nat (pos + 1) < length w" "nat pos \<noteq> nat (pos + 1)"
    using b by auto
  have "length w' = length w" unfolding w'_def by simp
  moreover have v1: "w' ! nat pos = w ! nat (pos - 1)
         + 0.33 * real_of_int (int_of_float (w ! nat (pos + 2)) - int_of_float (w ! nat (pos - 1)))"
    unfolding w'_def using n by simp
  moreover have v2: "w' ! nat (pos + 1) = w ! nat (pos - 1)
         + 0.66 * real_of_int (int_of_float (w ! nat (pos + 2)) - int_of_float (w ! nat (pos - 1)))"
    unfolding w'_def using n by simp
  moreover have "\<forall>i < length w. i \<noteq> nat pos \<and> i \<noteq> nat (pos + 1) \<longrightarrow> w' ! i = w ! i"
    unfolding w'_def by simp
  moreover have "w ! nat (pos - 1) \<in> \<int> \<and> w ! nat (pos + 2) \<in> \<int> \<longrightarrow>
          w' ! nat pos = w ! nat (pos - 1) + 0.33 * (w ! nat (pos + 2) - w ! nat (pos - 1))
          \<and> w' ! nat (pos + 1) = w ! nat (pos - 1) + 0.66 * (w ! nat (pos + 2) - w ! nat (pos - 1))"
    using v1 v2 by (simp add: trunc)
  ultimately show ?thesis using e by blast
qed

theorem spike_A_values_truncated_witness:
  "list_all (in_bounds spike_example) (spike_A_indices 3)
   \<and> (\<exists>w'. interpolate_spike_A spike_example 3 = Some w' \<and> length w' = length spike_example
         \<and> w' ! nat 3 = spike_example ! nat (3 - 1)
              + 0.33 * real_of_int (int_of_float (spike_example ! nat (3 + 2))
                                    - int_of_float (spike_example ! nat (3 - 1))))"
proof -
  have h: "\<forall>i \<in> set (spike_A_indices 3). in_bounds spike_example i"
    unfolding spike_A_indices_def in_bounds_def spike_example_def by simp
  then have "list_all (in_bounds spike_example) (spike_A_indices 3)"
    by (simp add: list_all_iff)
  with spike_A_values_truncated [OF h] show ?thesis by blast
qed

section \<open>Properties of the time-lapse correction of one pixel\<close>

lemma float_min_max: "w - float_min (Finite p) w = max (w - p) 0"
  by (simp add: min_def max_def)

lemma fold_option_upt_pointwise:
  assumes step: "\<And>i w. i < n \<Longrightarrow> length w = L \<Longrightarrow> f i w = Some (w[i := g i (w ! i)])"
    and "n \<le> L" and "length w = L"
  shows "\<exists>w'. fold_option f [0..<n] w = Some w' \<and> length w' = L
           \<and> (\<forall>i < L. w' ! i = (if i < n then g i (w ! i) else w ! i))"
  using \<open>n \<le> L\<close> step
proof (induction n)
  case 0
  then show ?case using \<open>length w = L\<close> by simp
next
  case (Suc n)
  then obtain w1 where w1: "fold_option f [0..<n] w = Some w1" "length w1 = L"
    "\<forall>i < L. w1 ! i = (if i < n then g i (w ! i) else w ! i)"
    by force
  have "f n w1 = Some (w1[n := g n (w1 ! n)])" using Suc.prems w1 by simp
  then have "fold_option f [0..<Suc n] w = Some (w1[n := g n (w1 ! n)])"
    using w1 by (simp add: fold_option_append)
  moreover have "\<forall>i < L. (w1[n := g n (w1 ! n)]) ! i = (if i < Suc n then g i (w ! i) else w ! i)"
    using w1 Suc.prems by (auto simp: nth_list_update less_Suc_eq)
  ultimately show ?case using w1 by simp
qed

lemma sample_step:
  assumes "s < N_SAMPLES" "length w = N_SAMPLES"
  shows "apply_timelapse_correction_sample fc t lrt s w = Some (w[s := timelapse_sample_value fc t lrt s (w ! s)])"
proof -
  have ib: "in_bounds w (int s)" using assms unfolding in_bounds_def by simp
  have fm: "x - float_min v x = (case v of Finite p \<Rightarrow> max (x - p) 0 | PosInf \<Rightarrow> 0)" for x v
    by (cases v) (simp_all add: min_def max_def)
  show ?thesis
    unfolding apply_timelapse_correction_sample_def timelapse_sample_value_def Let_def
      N_CAPACITORS_PIXEL_def N_CAPACITORS_CHANNEL_def CLOCK_FREQUENCY_KHZ_def
    using ib by (simp add: fm)
qed


text \<open>
  Claim C1. On a waveform of 40 samples \<^verbatim>\<open>apply_timelapse_correction_pixel\<close> returns a
  waveform in which sample \<open>s\<close>, with capacitor \<open>c = (fc + s) mod 4096\<close> and
  \<open>prev\<close> the last readout time of \<open>c\<close>, is changed exactly when \<open>prev > 0\<close> and
  \<open>dt_ms = (t_now - prev) / 133000 < 100\<close> (the difference of the two 64-bit counters);
  the new value is then \<open>max (old - ped_time dt_ms) 0\<close>, which is 0 when \<open>ped_time\<close> is
  infinite, and every other sample is unchanged. For a time difference other than zero
  \<open>ped_time dt = 32.99 * dt ^ (-0.22) - 11.9\<close>.
\<close>

theorem timelapse_correction_pixel:
  assumes "length waveform = N_SAMPLES"
  shows "\<exists>w'. apply_timelapse_correction_pixel waveform fc t_now last_readout = Some w'
           \<and> length w' = N_SAMPLES
           \<and> (\<forall>s < N_SAMPLES.
                 w' ! s =
                  (let c = nat ((fc + int s) mod 4096);
                       prev = last_readout c;
                       dt_ms = real (unat (t_now - prev)) / 133000
                   in if prev > 0 \<and> dt_ms < 100
                      then (case ped_time dt_ms of
                              Finite p \<Rightarrow> max (waveform ! s - p) 0
                            | PosInf \<Rightarrow> 0)
                      else waveform ! s))
           \<and> (\<forall>dt. dt \<noteq> 0 \<longrightarrow> ped_time dt = Finite (32.99 * dt powr (- 0.22) - 11.9))"
proof -
  have "\<exists>w'. fold_option (apply_timelapse_correction_sample fc t_now last_readout)
               [0..<N_SAMPLES] waveform = Some w'
           \<and> length w' = N_SAMPLES
           \<and> (\<forall>i < N_SAMPLES. w' ! i =
                 (if i < N_SAMPLES then timelapse_sample_value fc t_now last_readout i (waveform ! i)
                  else waveform ! i))"
    by (rule fold_option_upt_pointwise) (simp_all add: sample_step assms)
  then obtain w' where w': "apply_timelapse_correction_pixel waveform fc t_now last_readout = Some w'"
      "length w' = N_SAMPLES"
      "\<forall>i < N_SAMPLES. w' ! i = timelapse_sample_value fc t_now last_readout i (waveform ! i)"
    unfolding apply_timelapse_correction_pixel_def by auto
  have "\<forall>dt. dt \<noteq> 0 \<longrightarrow> ped_time dt = Finite (32.99 * dt powr (- 0.22) - 11.9)"
    unfolding ped_time_def by simp
  with w' show ?thesis unfolding timelapse_sample_value_def by auto
qed


theorem timelapse_correction_pixel_witness:
  "length (replicate 40 (100::real)) = N_SAMPLES
   \<and> (\<exists>w'. apply_timelapse_correction_pixel (replicate 40 100) 0 1330001 (\<lambda>c. 1) = Some w'
          \<and> w' ! 0 = max (100 - (32.99 * 10 powr (- 0.22) - 11.9)) 0)"
proof -
  have l: "length (replicate 40 (100::real)) = N_SAMPLES" by (simp add: N_SAMPLES_def)
  have p: "ped_time 10 = Finite (32.99 * 10 powr (- 0.22) - 11.9)"
    by (simp add: ped_time_def)
  have u: "unat (1330001 - 1 :: u64) = 1330000" by simp
  from timelapse_correction_pixel [OF l, of 0 1330001 "\<lambda>c. 1"]
  obtain w' where w': "apply_timelapse_correction_pixel (replicate 40 100) 0 1330001 (\<lambda>c. 1) = Some w'"
    and v: "\<forall>s < N_SAMPLES.
                 w' ! s =
                  (let c = nat ((0 + int s) mod 4096);
                       prev = (1::u64);
                       dt_ms = real (unat (1330001 - prev)) / 133000
                   in if prev > 0 \<and> dt_ms < 100
                      then (case ped_time dt_ms of
                              Finite p \<Rightarrow> max (replicate 40 100 ! s - p) 0
                            | PosInf \<Rightarrow> 0)
                      else replicate 40 100 ! s)"
    by blast
  have "0 < N_SAMPLES" by (simp add: N_SAMPLES_def)
  with v have "w' ! 0 = max (100 - (32.99 * 10 powr (- 0.22) - 11.9)) 0"
    by (simp add: u p)
  with w' l show ?thesis by blast
qed

section \<open>Properties of the last readout times\<close>

lemma row_stamped_refl: "row_stamped t r r"
  by (simp add: row_stamped_def)

lemma row_stamped_trans:
  "row_stamped t r r1 \<Longrightarrow> row_stamped t r1 r2 \<Longrightarrow> row_stamped t r r2"
  unfolding row_stamped_def by metis

lemma row_stamped_stamp: "row_stamped t r (stamp t i r)"
  by (simp add: row_stamped_def stamp_def)

lemma fold_stamps_stamped:
  assumes "\<And>c. c \<in> set cs \<Longrightarrow> \<exists>i. g c = stamp t i"
  shows "row_stamped t r (fold g cs r)"
  using assms
proof (induction cs arbitrary: r)
  case Nil
  then show ?case by (simp add: row_stamped_refl)
next
  case (Cons c cs)
  from Cons.prems obtain i where i: "g c = stamp t i" by auto
  have "row_stamped t (stamp t i r) (fold g cs (stamp t i r))"
    using Cons.IH Cons.prems by simp
  with row_stamped_stamp [of t r i] have "row_stamped t r (fold g cs (stamp t i r))"
    by (rule row_stamped_trans)
  then show ?case by (simp add: i)
qed

lemma fold_stamps_keep:
  assumes "\<And>c. c \<in> set cs \<Longrightarrow> \<exists>i. g c = stamp t i" and "r x = t"
  shows "fold g cs r x = t"
proof -
  have "row_stamped t r (fold g cs r)" using assms(1) by (rule fold_stamps_stamped)
  with assms(2) show ?thesis unfolding row_stamped_def by metis
qed

lemma fold_sample_stamps_first:
  "fold (\<lambda>sample. stamp t (fc + sample)) (0 # cs) r (nat (fc mod int N_CAPACITORS_PIXEL)) = t"
proof -
  have "stamp t fc r (nat (fc mod int N_CAPACITORS_PIXEL)) = t"
    by (simp add: stamp_def)
  then have "fold (\<lambda>sample. stamp t (fc + sample)) cs (stamp t fc r)
               (nat (fc mod int N_CAPACITORS_PIXEL)) = t"
    by (intro fold_stamps_keep) auto
  then show ?thesis by simp
qed

lemma upto_0_39: "[0..int N_SAMPLES - 1] = 0 # [1..39]"
  by (simp add: N_SAMPLES_def upto_rec1)

lemma upto_m1_38: "[- 1..int N_SAMPLES - 1 - 1] = (- 1) # 0 # [1..38]"
  by (simp add: N_SAMPLES_def upto_rec1)

lemma update_last_readout_time_stamped:
  "row_stamped t r (update_last_readout_time k fc t r)"
  unfolding update_last_readout_time_def Let_def
  by (auto intro!: row_stamped_trans [OF fold_stamps_stamped fold_stamps_stamped]
        fold_stamps_stamped)

lemma update_last_readout_time_old_firmware_stamped:
  "row_stamped t r (update_last_readout_time_old_firmware k fc t r)"
  unfolding update_last_readout_time_old_firmware_def Let_def
  by (auto intro!: row_stamped_trans [OF fold_stamps_stamped fold_stamps_stamped]
        fold_stamps_stamped)

lemma update_last_readout_time_first:
  "update_last_readout_time k fc t r (nat (fc mod int N_CAPACITORS_PIXEL)) = t"
proof -
  have f: "fold (\<lambda>sample. stamp t (fc + sample)) [0..int N_SAMPLES - 1] r
             (nat (fc mod int N_CAPACITORS_PIXEL)) = t"
    unfolding upto_0_39 by (rule fold_sample_stamps_first)
  show ?thesis
    unfolding update_last_readout_time_def Let_def
    using f by (auto intro!: fold_stamps_keep)
qed

lemma update_last_readout_time_old_firmware_first:
  "update_last_readout_time_old_firmware k fc t r (nat (fc mod int N_CAPACITORS_PIXEL)) = t"
proof -
  have "fold (\<lambda>sample. stamp t (fc + sample)) (0 # [1..38]) (stamp t (fc + (- 1)) r)
             (nat (fc mod int N_CAPACITORS_PIXEL)) = t"
    by (rule fold_sample_stamps_first)
  then have f: "fold (\<lambda>sample. stamp t (fc + sample)) [- 1..int N_SAMPLES - 1 - 1] r
             (nat (fc mod int N_CAPACITORS_PIXEL)) = t"
    unfolding upto_m1_38 by simp
  show ?thesis
    unfolding update_last_readout_time_old_firmware_def Let_def
    using f by (auto intro!: fold_stamps_keep)
qed


lemma body_Some:
  assumes "apply_timelapse_correction_body L lcc fc expected run_id (g, m, k) (w, l) = Some (w', l')"
  shows "\<exists>U row. l' = l(g := (l g)(expected ! (m * N_PIXELS_MODULE + k) := U))
           \<and> w' = w(g := (w g)(expected ! (m * N_PIXELS_MODULE + k) := row))
           \<and> row_stamped (lcc ! m) (l g (expected ! (m * N_PIXELS_MODULE + k))) U
           \<and> U (nat (fc g (expected ! (m * N_PIXELS_MODULE + k)) mod int N_CAPACITORS_PIXEL)) = lcc ! m"
  using assms
  unfolding apply_timelapse_correction_body_def Let_def
  by (auto split: if_splits option.splits
      simp: update_last_readout_time_stamped update_last_readout_time_old_firmware_stamped
        update_last_readout_time_first update_last_readout_time_old_firmware_first)

lemma body_other_cell:
  assumes "apply_timelapse_correction_body L lcc fc expected run_id (g, m, k) (w, l) = Some (w', l')"
    and "(g0, p0) \<noteq> (g, expected ! (m * N_PIXELS_MODULE + k))"
  shows "l' g0 p0 = l g0 p0"
  using body_Some [OF assms(1)] assms(2) by auto

lemma body_hit:
  assumes "apply_timelapse_correction_body L lcc fc expected run_id (g, m, k) (w, l) = Some (w', l')"
  shows "l' g (expected ! (m * N_PIXELS_MODULE + k))
           (nat (fc g (expected ! (m * N_PIXELS_MODULE + k)) mod int N_CAPACITORS_PIXEL)) = lcc ! m"
  using body_Some [OF assms(1)] by auto

lemma body_stamped:
  assumes "apply_timelapse_correction_body L lcc fc expected run_id (g, m, k) (w, l) = Some (w', l')"
  shows "table_stamped {(expected ! (m * N_PIXELS_MODULE + k), lcc ! m)} l l'"
proof -
  from body_Some [OF assms] obtain U where
    l': "l' = l(g := (l g)(expected ! (m * N_PIXELS_MODULE + k) := U))"
    and U: "row_stamped (lcc ! m) (l g (expected ! (m * N_PIXELS_MODULE + k))) U"
    by blast
  show ?thesis
    unfolding table_stamped_def l' using U by (auto simp: row_stamped_def)
qed

lemma table_stamped_refl: "table_stamped S l l"
  by (simp add: table_stamped_def)

lemma table_stamped_trans:
  "table_stamped S l l1 \<Longrightarrow> table_stamped T l1 l2 \<Longrightarrow> table_stamped (S \<union> T) l l2"
  unfolding table_stamped_def by (metis Un_iff)

lemma table_stamped_mono: "table_stamped S l l' \<Longrightarrow> S \<subseteq> T \<Longrightarrow> table_stamped T l l'"
  unfolding table_stamped_def by blast

lemma loop_stamped:
  assumes "fold_option (apply_timelapse_correction_body L lcc fc expected run_id) xs (w, l)
             = Some (w', l')"
  shows "table_stamped
           ((\<lambda>(g, m, k). (expected ! (m * N_PIXELS_MODULE + k), lcc ! m)) ` set xs) l l'"
  using assms
proof (induction xs arbitrary: w l)
  case Nil
  then show ?case by (simp add: table_stamped_refl)
next
  case (Cons x xs)
  obtain g m k where x: "x = (g, m, k)" by (cases x) auto
  from Cons.prems obtain w1 l1 where
    s1: "apply_timelapse_correction_body L lcc fc expected run_id (g, m, k) (w, l) = Some (w1, l1)"
    and r: "fold_option (apply_timelapse_correction_body L lcc fc expected run_id) xs (w1, l1)
             = Some (w', l')"
    unfolding x by (auto split: option.splits)
  from table_stamped_trans [OF body_stamped [OF s1] Cons.IH [OF r]]
  show ?case unfolding x by (rule table_stamped_mono) auto
qed

lemma loop_other_cell:
  assumes "fold_option (apply_timelapse_correction_body L lcc fc expected run_id) xs (w, l)
             = Some (w', l')"
    and "\<forall>(g, m, k) \<in> set xs. (g0, p0) \<noteq> (g, expected ! (m * N_PIXELS_MODULE + k))"
  shows "l' g0 p0 = l g0 p0"
  using assms
proof (induction xs arbitrary: w l)
  case Nil
  then show ?case by simp
next
  case (Cons x xs)
  obtain g m k where x: "x = (g, m, k)" by (cases x) auto
  from Cons.prems(1) obtain w1 l1 where
    s1: "apply_timelapse_correction_body L lcc fc expected run_id (g, m, k) (w, l) = Some (w1, l1)"
    and r: "fold_option (apply_timelapse_correction_body L lcc fc expected run_id) xs (w1, l1)
             = Some (w', l')"
    unfolding x by (auto split: option.splits)
  have "l1 g0 p0 = l g0 p0"
    using body_other_cell [OF s1] Cons.prems(2) unfolding x by auto
  moreover have "l' g0 p0 = l1 g0 p0"
    using Cons.IH [OF r] Cons.prems(2) by auto
  ultimately show ?case by simp
qed




lemma apply_timelapse_correction_pixel_total:
  assumes "length waveform = N_SAMPLES"
  shows "\<exists>w'. apply_timelapse_correction_pixel waveform fc t r = Some w' \<and> length w' = N_SAMPLES"
proof -
  have "\<exists>w'. fold_option (apply_timelapse_correction_sample fc t r) [0..<N_SAMPLES] waveform = Some w'
           \<and> length w' = N_SAMPLES
           \<and> (\<forall>i < N_SAMPLES. w' ! i =
                 (if i < N_SAMPLES then timelapse_sample_value fc t r i (waveform ! i)
                  else waveform ! i))"
    by (rule fold_option_upt_pointwise) (simp_all add: sample_step assms)
  then show ?thesis unfolding apply_timelapse_correction_pixel_def by blast
qed

lemma body_total:
  assumes "m < length lcc" and "m * N_PIXELS_MODULE + k < length expected"
    and "expected ! (m * N_PIXELS_MODULE + k) < N_PIXELS"
    and "\<forall>g p. length (w g p) = N_SAMPLES"
  shows "\<exists>w' l'. apply_timelapse_correction_body L lcc fc expected run_id (g, m, k) (w, l)
                    = Some (w', l') \<and> (\<forall>g p. length (w' g p) = N_SAMPLES)"
proof -
  let ?p = "expected ! (m * N_PIXELS_MODULE + k)"
  from assms(4) have "length (w g ?p) = N_SAMPLES" by simp
  from apply_timelapse_correction_pixel_total [OF this, of "fc g ?p" "lcc ! m" "l g ?p"]
  obtain row where row: "apply_timelapse_correction_pixel (w g ?p) (fc g ?p) (lcc ! m) (l g ?p) = Some row"
    "length row = N_SAMPLES" by blast
  show ?thesis
    unfolding apply_timelapse_correction_body_def Let_def
    using assms row by (simp add: not_le)
qed

lemma loop_total:
  assumes "\<forall>(g, m, k) \<in> set xs. m < length lcc \<and> m * N_PIXELS_MODULE + k < length expected
              \<and> expected ! (m * N_PIXELS_MODULE + k) < N_PIXELS"
    and "\<forall>g p. length (w g p) = N_SAMPLES"
  shows "\<exists>w' l'. fold_option (apply_timelapse_correction_body L lcc fc expected run_id) xs (w, l)
                    = Some (w', l') \<and> (\<forall>g p. length (w' g p) = N_SAMPLES)"
  using assms
proof (induction xs arbitrary: w l)
  case Nil
  then show ?case by simp
next
  case (Cons x xs)
  obtain g m k where x: "x = (g, m, k)" by (cases x) auto
  from Cons.prems have c: "m < length lcc" "m * N_PIXELS_MODULE + k < length expected"
    "expected ! (m * N_PIXELS_MODULE + k) < N_PIXELS" unfolding x by auto
  from body_total [OF c Cons.prems(2), of L fc run_id g l]
  obtain w1 l1 where s1:
    "apply_timelapse_correction_body L lcc fc expected run_id (g, m, k) (w, l) = Some (w1, l1)"
    "\<forall>g p. length (w1 g p) = N_SAMPLES" by blast
  from Cons.IH [OF _ s1(2), of l1] Cons.prems(1)
  obtain w' l' where "fold_option (apply_timelapse_correction_body L lcc fc expected run_id) xs (w1, l1)
                    = Some (w', l')" "\<forall>g p. length (w' g p) = N_SAMPLES" by auto
  with s1 show ?case unfolding x by simp
qed

lemma timelapse_loop_set:
  "(g, m, k) \<in> set (timelapse_loop expected) \<longleftrightarrow>
     g < N_GAINS \<and> m < length expected div N_PIXELS_MODULE \<and> k < N_PIXELS_MODULE"
  unfolding timelapse_loop_def Let_def by force

lemma loop_index_in_range:
  assumes "m < length expected div N_PIXELS_MODULE" and "k < N_PIXELS_MODULE"
  shows "m * N_PIXELS_MODULE + k < length expected"
proof -
  have "m * N_PIXELS_MODULE + k < (m + 1) * N_PIXELS_MODULE" using assms(2) by simp
  also have "\<dots> \<le> (length expected div N_PIXELS_MODULE) * N_PIXELS_MODULE"
    using assms(1) by (intro mult_le_mono1) simp
  also have "\<dots> \<le> length expected" by simp
  finally show ?thesis .
qed

lemma loop_index_inj:
  assumes "m * N_PIXELS_MODULE + k = m' * N_PIXELS_MODULE + k'"
    and "k < N_PIXELS_MODULE" and "k' < N_PIXELS_MODULE"
  shows "m = m' \<and> k = k'"
proof -
  from assms have "(m * N_PIXELS_MODULE + k) div N_PIXELS_MODULE
                 = (m' * N_PIXELS_MODULE + k') div N_PIXELS_MODULE" by simp
  with assms(2,3) have "m = m'" by simp
  with assms(1) show ?thesis by simp
qed

lemma apply_timelapse_correction_total:
  assumes "length expected div N_PIXELS_MODULE \<le> length lcc"
    and "\<forall>p \<in> set expected. p < N_PIXELS"
    and "\<forall>g p. length (w g p) = N_SAMPLES"
  shows "\<exists>w' l'. apply_timelapse_correction L w lcc fc l expected run_id = Some (w', l')
                  \<and> (\<forall>g p. length (w' g p) = N_SAMPLES)"
  unfolding apply_timelapse_correction_def
proof (rule loop_total [OF _ assms(3)], clarify)
  fix g m k assume "(g, m, k) \<in> set (timelapse_loop expected)"
  then have mk: "m < length expected div N_PIXELS_MODULE" "k < N_PIXELS_MODULE"
    by (simp_all add: timelapse_loop_set)
  from loop_index_in_range [OF mk] have i: "m * N_PIXELS_MODULE + k < length expected" .
  with assms(2) have "expected ! (m * N_PIXELS_MODULE + k) < N_PIXELS" by simp
  with i mk(1) assms(1)
  show "m < length lcc \<and> m * N_PIXELS_MODULE + k < length expected
              \<and> expected ! (m * N_PIXELS_MODULE + k) < N_PIXELS" by simp
qed

lemma apply_timelapse_correction_stamped:
  assumes "apply_timelapse_correction L w lcc fc l expected run_id = Some (w', l')"
  shows "table_stamped (event_stamps expected lcc) l l'"
proof -
  from assms have "table_stamped
           ((\<lambda>(g, m, k). (expected ! (m * N_PIXELS_MODULE + k), lcc ! m))
              ` set (timelapse_loop expected)) l l'"
    unfolding apply_timelapse_correction_def by (rule loop_stamped)
  then show ?thesis
    by (rule table_stamped_mono) (force simp: event_stamps_def timelapse_loop_set)
qed

lemma apply_timelapse_correction_hit:
  assumes ok: "apply_timelapse_correction L w lcc fc l expected run_id = Some (w', l')"
    and d: "distinct expected"
    and g: "g < N_GAINS" and m: "m < length expected div N_PIXELS_MODULE"
    and k: "k < N_PIXELS_MODULE"
  shows "l' g (expected ! (m * N_PIXELS_MODULE + k))
           (nat (fc g (expected ! (m * N_PIXELS_MODULE + k)) mod int N_CAPACITORS_PIXEL)) = lcc ! m"
proof -
  let ?body = "apply_timelapse_correction_body L lcc fc expected run_id"
  let ?p = "expected ! (m * N_PIXELS_MODULE + k)"
  have "(g, m, k) \<in> set (timelapse_loop expected)"
    using g m k by (simp add: timelapse_loop_set)
  then obtain ys zs where sp: "timelapse_loop expected = ys @ (g, m, k) # zs"
    and nz: "(g, m, k) \<notin> set zs"
    using split_list_last by fastforce
  from ok have "Option.bind (fold_option ?body ys (w, l)) (fold_option ?body ((g, m, k) # zs))
                  = Some (w', l')"
    unfolding apply_timelapse_correction_def sp fold_option_append .
  then obtain w1 l1 w2 l2 where
    s2: "?body (g, m, k) (w1, l1) = Some (w2, l2)"
    and s3: "fold_option ?body zs (w2, l2) = Some (w', l')"
    by (auto simp: Option.bind_eq_Some_conv split: option.splits)
  have other: "(g, ?p) \<noteq> (g', expected ! (m' * N_PIXELS_MODULE + k'))"
    if z: "(g', m', k') \<in> set zs" for g' m' k'
  proof
    assume e: "(g, ?p) = (g', expected ! (m' * N_PIXELS_MODULE + k'))"
    from z have "(g', m', k') \<in> set (timelapse_loop expected)" unfolding sp by simp
    then have mk': "m' < length expected div N_PIXELS_MODULE" "k' < N_PIXELS_MODULE"
      by (simp_all add: timelapse_loop_set)
    from d e loop_index_in_range [OF m k] loop_index_in_range [OF mk']
    have "m * N_PIXELS_MODULE + k = m' * N_PIXELS_MODULE + k'"
      by (simp add: nth_eq_iff_index_eq)
    from loop_index_inj [OF this k mk'(2)] e have "(g', m', k') = (g, m, k)" by simp
    with z nz show False by simp
  qed
  have "l' g ?p = l2 g ?p"
    using loop_other_cell [OF s3, of g ?p] other by auto
  with body_hit [OF s2] show ?thesis by simp
qed


lemma history_length:
  "last_readout_history L expected run_id es l = Some h \<Longrightarrow> length h = length es + 1 \<and> h ! 0 = l"
  by (induction es arbitrary: l h) (auto split: option.splits)

lemma history_step:
  assumes "last_readout_history L expected run_id es l = Some h" and "i < length es"
  shows "\<exists>w'. apply_timelapse_correction L (event_waveform (es ! i))
                 (event_local_clock_counter (es ! i)) (event_first_capacitors (es ! i))
                 (h ! i) expected run_id = Some (w', h ! Suc i)"
  using assms
proof (induction es arbitrary: l h i)
  case Nil
  then show ?case by simp
next
  case (Cons e es)
  from Cons.prems(1) obtain w1 l1 h1 where
    s1: "apply_timelapse_correction L (event_waveform e) (event_local_clock_counter e)
           (event_first_capacitors e) l expected run_id = Some (w1, l1)"
    and r: "last_readout_history L expected run_id es l1 = Some h1"
    and h: "h = l # h1"
    by (auto split: option.splits)
  show ?case
  proof (cases i)
    case 0
    with s1 h history_length [OF r] show ?thesis by auto
  next
    case (Suc i')
    with Cons.prems(2) have "i' < length es" by simp
    from Cons.IH [OF r this] show ?thesis unfolding h Suc by simp
  qed
qed

lemma history_total:
  assumes "\<forall>p \<in> set expected. p < N_PIXELS"
    and "\<forall>e \<in> set es. length expected div N_PIXELS_MODULE \<le> length (event_local_clock_counter e)
           \<and> (\<forall>g p. length (event_waveform e g p) = N_SAMPLES)"
  shows "\<exists>h. last_readout_history L expected run_id es l = Some h"
  using assms(2)
proof (induction es arbitrary: l)
  case Nil
  then show ?case by simp
next
  case (Cons e es)
  from Cons.prems have e: "length expected div N_PIXELS_MODULE \<le> length (event_local_clock_counter e)"
    "\<forall>g p. length (event_waveform e g p) = N_SAMPLES" by auto
  from apply_timelapse_correction_total [OF e(1) assms(1) e(2), of L "event_first_capacitors e" l run_id]
  obtain w1 l1 where s1: "apply_timelapse_correction L (event_waveform e) (event_local_clock_counter e)
           (event_first_capacitors e) l expected run_id = Some (w1, l1)" by blast
  from Cons.IH [of l1] Cons.prems obtain h1 where
    "last_readout_history L expected run_id es l1 = Some h1" by auto
  with s1 show ?case by simp
qed

lemma history_values:
  assumes h: "last_readout_history L expected run_id es zero_readout_table = Some h"
    and i: "i \<le> length es"
  shows "(h ! i) g p c = 0
         \<or> (\<exists>i' < i. (p, (h ! i) g p c) \<in> event_stamps expected (event_local_clock_counter (es ! i')))"
  using i
proof (induction i arbitrary: g p c)
  case 0
  with history_length [OF h] show ?case by (simp add: zero_readout_table_def)
next
  case (Suc i)
  then have il: "i < length es" by simp
  from history_step [OF h il] obtain w' where
    "apply_timelapse_correction L (event_waveform (es ! i))
                 (event_local_clock_counter (es ! i)) (event_first_capacitors (es ! i))
                 (h ! i) expected run_id = Some (w', h ! Suc i)" by blast
  from apply_timelapse_correction_stamped [OF this]
  have "(h ! Suc i) g p c = (h ! i) g p c
        \<or> (p, (h ! Suc i) g p c) \<in> event_stamps expected (event_local_clock_counter (es ! i))"
    unfolding table_stamped_def by blast
  then show ?case
  proof
    assume same: "(h ! Suc i) g p c = (h ! i) g p c"
    from Suc.IH [of g p c] il
    have "(h ! i) g p c = 0
         \<or> (\<exists>i' < i. (p, (h ! i) g p c) \<in> event_stamps expected (event_local_clock_counter (es ! i')))"
      by simp
    then show ?thesis unfolding same using less_Suc_eq by auto
  next
    assume "(p, (h ! Suc i) g p c) \<in> event_stamps expected (event_local_clock_counter (es ! i))"
    then show ?thesis by blast
  qed
qed

lemma history_adjacent:
  assumes d: "distinct expected"
    and h: "last_readout_history L expected run_id es zero_readout_table = Some h"
    and chron: "\<forall>i j m. i < j \<and> j < length es \<and> m < length expected div N_PIXELS_MODULE
        \<longrightarrow> event_local_clock_counter (es ! i) ! m \<le> event_local_clock_counter (es ! j) ! m"
    and il: "i < length es"
  shows "(h ! i) g p c \<le> (h ! Suc i) g p c"
proof -
  from history_step [OF h il] obtain w' where
    "apply_timelapse_correction L (event_waveform (es ! i))
                 (event_local_clock_counter (es ! i)) (event_first_capacitors (es ! i))
                 (h ! i) expected run_id = Some (w', h ! Suc i)" by blast
  from apply_timelapse_correction_stamped [OF this]
  have "(h ! Suc i) g p c = (h ! i) g p c
        \<or> (p, (h ! Suc i) g p c) \<in> event_stamps expected (event_local_clock_counter (es ! i))"
    unfolding table_stamped_def by blast
  then show ?thesis
  proof
    assume "(h ! Suc i) g p c = (h ! i) g p c"
    then show ?thesis by simp
  next
    assume "(p, (h ! Suc i) g p c) \<in> event_stamps expected (event_local_clock_counter (es ! i))"
    then obtain m k where new: "p = expected ! (m * N_PIXELS_MODULE + k)"
      "(h ! Suc i) g p c = event_local_clock_counter (es ! i) ! m"
      "m < length expected div N_PIXELS_MODULE" "k < N_PIXELS_MODULE"
      unfolding event_stamps_def by blast
    from history_values [OF h, of i g p c] il
    have "(h ! i) g p c = 0
         \<or> (\<exists>i' < i. (p, (h ! i) g p c) \<in> event_stamps expected (event_local_clock_counter (es ! i')))"
      by simp
    then show ?thesis
    proof
      assume "(h ! i) g p c = 0"
      then show ?thesis by simp
    next
      assume "\<exists>i' < i. (p, (h ! i) g p c) \<in> event_stamps expected (event_local_clock_counter (es ! i'))"
      then obtain i' m' k' where old: "i' < i" "p = expected ! (m' * N_PIXELS_MODULE + k')"
        "(h ! i) g p c = event_local_clock_counter (es ! i') ! m'"
        "m' < length expected div N_PIXELS_MODULE" "k' < N_PIXELS_MODULE"
        unfolding event_stamps_def by blast
      from d new(1) old(2) loop_index_in_range [OF new(3,4)] loop_index_in_range [OF old(4,5)]
      have "m * N_PIXELS_MODULE + k = m' * N_PIXELS_MODULE + k'"
        by (simp add: nth_eq_iff_index_eq)
      from loop_index_inj [OF this new(4) old(5)] have "m = m'" by simp
      with chron old(1) il new(3)
      have "event_local_clock_counter (es ! i') ! m' \<le> event_local_clock_counter (es ! i) ! m"
        by blast
      then show ?thesis unfolding old(3) new(2) .
    qed
  qed
qed

text \<open>
  Claim C7, amended. In a session that starts from the table of zeros, with pairwise
  different pixel ids and with clock counters that do not decrease from an event to a
  later one for each module, the last readout time of every (gain, pixel, capacitor)
  starts at zero, is at every moment zero or the clock counter that an earlier event had
  for a module of the pixel, and never decreases over the events.
\<close>

theorem last_readout_monotone:
  assumes "distinct expected_pixels_id"
    and "last_readout_history LAST_RUN_WITH_OLD_FIRMWARE expected_pixels_id run_id events
           zero_readout_table = Some history"
    and "\<forall>i j m. i < j \<and> j < length events
             \<and> m < length expected_pixels_id div N_PIXELS_MODULE
        \<longrightarrow> event_local_clock_counter (events ! i) ! m
              \<le> event_local_clock_counter (events ! j) ! m"
  shows "length history = length events + 1
       \<and> history ! 0 = zero_readout_table
       \<and> (\<forall>i < length history. (history ! i) g p c = 0
            \<or> (\<exists>i' < i. (p, (history ! i) g p c)
                  \<in> event_stamps expected_pixels_id (event_local_clock_counter (events ! i'))))
       \<and> (\<forall>i j. i \<le> j \<and> j < length history \<longrightarrow> (history ! i) g p c \<le> (history ! j) g p c)"
proof -
  note len = history_length [OF assms(2)]
  have mono: "(history ! i) g p c \<le> (history ! j) g p c" if "i \<le> j" "j < length history" for i j
    using that
  proof (induction j)
    case 0
    then show ?case by simp
  next
    case (Suc j)
    show ?case
    proof (cases "i = Suc j")
      case True
      then show ?thesis by simp
    next
      case False
      with Suc.prems have ij: "i \<le> j" "j < length history" by simp_all
      from Suc.prems len have "j < length events" by simp
      from history_adjacent [OF assms(1,2,3) this]
      have "(history ! j) g p c \<le> (history ! Suc j) g p c" .
      with Suc.IH [OF ij] show ?thesis by simp
    qed
  qed
  have vals: "\<forall>i < length history. (history ! i) g p c = 0
            \<or> (\<exists>i' < i. (p, (history ! i) g p c)
                  \<in> event_stamps expected_pixels_id (event_local_clock_counter (events ! i')))"
    using history_values [OF assms(2)] len by simp
  from len vals mono show ?thesis by blast
qed


lemma one_module_ok:
  "distinct one_module" "\<forall>p \<in> set one_module. p < N_PIXELS"
  "length one_module div N_PIXELS_MODULE = 1"
  by (simp_all add: one_module_def N_defs)

lemma event_at_ok:
  "length one_module div N_PIXELS_MODULE \<le> length (event_local_clock_counter (event_at t))
     \<and> (\<forall>g p. length (event_waveform (event_at t) g p) = N_SAMPLES)"
  by (simp add: event_at_def one_module_ok N_SAMPLES_def)

lemma two_events_history:
  "\<exists>l1 l2. last_readout_history L one_module run_id [event_at t1, event_at t2]
              zero_readout_table = Some [zero_readout_table, l1, l2]
           \<and> l1 0 0 0 = t1 \<and> l2 0 0 0 = t2"
proof -
  have g: "0 < N_GAINS" "0 < length one_module div N_PIXELS_MODULE" "0 < N_PIXELS_MODULE"
    by (simp_all add: one_module_ok N_GAINS_def) (simp add: N_PIXELS_MODULE_def)
  have cell: "one_module ! 0 = 0"
    by (simp add: one_module_def)
  from event_at_ok [of t1]
  have "\<exists>w' l'. apply_timelapse_correction L (event_waveform (event_at t1))
            (event_local_clock_counter (event_at t1)) (event_first_capacitors (event_at t1))
            zero_readout_table one_module run_id = Some (w', l')
            \<and> (\<forall>g p. length (w' g p) = N_SAMPLES)"
    by (intro apply_timelapse_correction_total one_module_ok) simp_all
  then obtain w1 l1 where s1: "apply_timelapse_correction L (event_waveform (event_at t1))
            (event_local_clock_counter (event_at t1)) (event_first_capacitors (event_at t1))
            zero_readout_table one_module run_id = Some (w1, l1)" by blast
  from event_at_ok [of t2]
  have "\<exists>w' l'. apply_timelapse_correction L (event_waveform (event_at t2))
            (event_local_clock_counter (event_at t2)) (event_first_capacitors (event_at t2))
            l1 one_module run_id = Some (w', l')
            \<and> (\<forall>g p. length (w' g p) = N_SAMPLES)"
    by (intro apply_timelapse_correction_total one_module_ok) simp_all
  then obtain w2 l2 where s2: "apply_timelapse_correction L (event_waveform (event_at t2))
            (event_local_clock_counter (event_at t2)) (event_first_capacitors (event_at t2))
            l1 one_module run_id = Some (w2, l2)" by blast
  from apply_timelapse_correction_hit [OF s1 one_module_ok(1) g]
  have v1: "l1 0 0 0 = t1" by (simp add: cell event_at_def)
  from apply_timelapse_correction_hit [OF s2 one_module_ok(1) g]
  have v2: "l2 0 0 0 = t2" by (simp add: cell event_at_def)
  from s1 s2 v1 v2 show ?thesis by simp
qed

text \<open>
  Claim C7 as stated fails: the kernel stores the clock counter of the current event
  whatever it is. With the counter 10 in a first event and 5 in a second, the last readout
  time of gain 0, pixel 0, capacitor 0 is 10 after the first event and 5 after the second.
\<close>

theorem last_readout_monotone_counterexample:
  "\<exists>l1 l2. last_readout_history 1574 one_module 2000 [event_at 10, event_at 5]
              zero_readout_table = Some [zero_readout_table, l1, l2]
           \<and> l1 0 0 0 = 10 \<and> l2 0 0 0 = 5 \<and> l1 0 0 0 \<noteq> 0 \<and> \<not> l1 0 0 0 \<le> l2 0 0 0"
proof -
  from two_events_history [of 1574 2000 10 5] obtain l1 l2 where
    h: "last_readout_history 1574 one_module 2000 [event_at 10, event_at 5]
              zero_readout_table = Some [zero_readout_table, l1, l2]"
    and v: "l1 0 0 0 = 10" "l2 0 0 0 = 5" by blast
  have "l1 0 0 0 \<noteq> 0 \<and> \<not> l1 0 0 0 \<le> l2 0 0 0" unfolding v by simp
  with h v show ?thesis by blast
qed

theorem last_readout_monotone_witness:
  "distinct one_module
   \<and> (\<exists>l1 l2. last_readout_history 1574 one_module 2000 [event_at 5, event_at 10]
              zero_readout_table = Some [zero_readout_table, l1, l2]
           \<and> l1 0 0 0 = 5 \<and> l2 0 0 0 = 10
           \<and> zero_readout_table 0 0 0 \<le> l1 0 0 0 \<and> l1 0 0 0 \<le> l2 0 0 0)"
proof -
  from two_events_history [of 1574 2000 5 10] obtain l1 l2 where
    h: "last_readout_history 1574 one_module 2000 [event_at 5, event_at 10]
              zero_readout_table = Some [zero_readout_table, l1, l2]"
    and v: "l1 0 0 0 = 5" "l2 0 0 0 = 10" by blast
  have chron: "\<forall>i j m. i < j \<and> j < length [event_at 5, event_at 10]
             \<and> m < length one_module div N_PIXELS_MODULE
        \<longrightarrow> event_local_clock_counter ([event_at 5, event_at 10] ! i) ! m
              \<le> event_local_clock_counter ([event_at 5, event_at 10] ! j) ! m"
  proof (intro allI impI)
    fix i j m :: nat
    assume a: "i < j \<and> j < length [event_at 5, event_at 10]
             \<and> m < length one_module div N_PIXELS_MODULE"
    then have "i = 0" "j = 1" "m = 0" by (simp_all add: one_module_ok)
    then show "event_local_clock_counter ([event_at 5, event_at 10] ! i) ! m
              \<le> event_local_clock_counter ([event_at 5, event_at 10] ! j) ! m"
      by (simp add: event_at_def)
  qed
  from last_readout_monotone [OF one_module_ok(1) h chron, of 0 0 0]
  have m: "\<forall>i j. i \<le> j \<and> j < length [zero_readout_table, l1, l2]
             \<longrightarrow> ([zero_readout_table, l1, l2] ! i) 0 0 0 \<le> ([zero_readout_table, l1, l2] ! j) 0 0 0"
    by blast
  from m [rule_format, of 0 1] have a: "zero_readout_table 0 0 0 \<le> l1 0 0 0" by simp
  from m [rule_format, of 1 2] have b: "l1 0 0 0 \<le> l2 0 0 0" by simp
  from h v a b one_module_ok(1) show ?thesis by blast
qed

section \<open>Properties of the merger of the input files\<close>

lemma next_event_unfold:
  "next_event mf =
     (if events_dict mf = [] then Inl StopIteration
      else
        (let min_path = fst (min_item (hd (events_dict mf)) (tl (events_dict mf)))
         in case map_of (events_dict mf) min_path of
              None \<Rightarrow> Inl KeyError
            | Some ne \<Rightarrow>
                (case map_of (file_dict mf) min_path of
                   None \<Rightarrow> Inl KeyError
                 | Some [] \<Rightarrow>
                     Inr (ne, mf\<lparr>events_dict := AList.delete min_path (events_dict mf)\<rparr>)
                 | Some (e # rest) \<Rightarrow>
                     Inr (ne, mf\<lparr>file_dict := AList.update min_path rest (file_dict mf),
                                 events_dict := AList.update min_path e (events_dict mf)\<rparr>))))"
  unfolding next_event_def by (cases "events_dict mf") simp_all

lemma min_item_in: "min_item best items \<in> set (best # items)"
  by (induction items arbitrary: best) auto

lemma min_item_le:
  "y \<in> set (best # items) \<Longrightarrow> event_id (snd (min_item best items)) \<le> event_id (snd y)"
proof (induction items arbitrary: best y)
  case Nil
  then show ?case by simp
next
  case (Cons item items)
  have b: "event_id (snd (min_item b items)) \<le> event_id (snd b)" for b
    by (rule Cons.IH) simp
  have r: "z \<in> set (b # items) \<Longrightarrow> event_id (snd (min_item b items)) \<le> event_id (snd z)"
    for b z by (rule Cons.IH)
  show ?case
  proof (cases "event_id (snd item) < event_id (snd best)")
    case True
    with r [of y item] b [of item] Cons.prems show ?thesis by auto
  next
    case False
    with r [of y best] b [of best] Cons.prems show ?thesis by auto
  qed
qed

lemma sum_list_delete:
  fixes f :: "'k \<times> 'v \<Rightarrow> 'a multiset"
  assumes "distinct (map fst al)" and "map_of al k = Some v"
  shows "sum_list (map f al) = f (k, v) + sum_list (map f (AList.delete k al))"
  using assms
proof (induction al)
  case Nil
  then show ?case by simp
next
  case (Cons x al)
  show ?case
  proof (cases "fst x = k")
    case True
    with Cons.prems have "x = (k, v)" by (cases x) auto
    moreover from True Cons.prems have "AList.delete k al = al"
      by (auto simp: image_iff)
    ultimately show ?thesis by simp
  next
    case False
    with Cons show ?thesis by (cases x) (auto simp: add.left_commute)
  qed
qed

lemma sum_list_update:
  fixes g :: "'k \<times> 'v \<Rightarrow> 'a multiset"
  assumes "distinct (map fst al)" and "map_of al k = Some v"
  shows "sum_list (map g (AList.update k v' al))
           = g (k, v') + sum_list (map g (AList.delete k al))"
proof -
  have "distinct (map fst (AList.update k v' al))"
    using assms(1) by (rule distinct_update)
  moreover have "map_of (AList.update k v' al) k = Some v'"
    by (simp add: update_conv')
  ultimately have "sum_list (map g (AList.update k v' al))
      = g (k, v') + sum_list (map g (AList.delete k (AList.update k v' al)))"
    by (rule sum_list_delete)
  then show ?thesis by (simp add: delete_update_same)
qed

lemma pending_alt:
  "pending mf = (\<Sum>(path, e) \<leftarrow> events_dict mf. add_mset e (mset (rows_of mf path)))"
  unfolding pending_def rows_of_def ..

lemma sum_list_member:
  "x \<in># (\<Sum>(k, e) \<leftarrow> al. add_mset e (mset (r k)))
     \<longleftrightarrow> (\<exists>(k, e) \<in> set al. x = e \<or> x \<in> set (r k))"
  by (induction al) auto

lemma pending_member:
  "x \<in># pending mf \<longleftrightarrow>
     (\<exists>(k, e) \<in> set (events_dict mf). x = e \<or> x \<in> set (rows_of mf k))"
  unfolding pending_alt by (rule sum_list_member)

lemma next_event_stop:
  assumes "merger_inv mf" and "next_event mf = Inl err"
  shows "err = StopIteration \<and> events_dict mf = []"
proof (cases "events_dict mf")
  case Nil
  with assms(2) show ?thesis by (simp add: next_event_unfold)
next
  case (Cons item items)
  define k where "k = fst (min_item (hd (events_dict mf)) (tl (events_dict mf)))"
  have "min_item item items \<in> set (events_dict mf)"
    using min_item_in [of item items] Cons by simp
  then have "(k, snd (min_item item items)) \<in> set (events_dict mf)"
    unfolding k_def Cons by simp
  with assms(1) have v: "map_of (events_dict mf) k = Some (snd (min_item item items))"
    unfolding merger_inv_def by simp
  with assms(1) obtain rows where "map_of (file_dict mf) k = Some rows"
    unfolding merger_inv_def by blast
  with v Cons assms(2) show ?thesis
    unfolding next_event_unfold Let_def k_def [symmetric]
    by (auto split: list.splits)
qed

lemma sum_list_delete_cong:
  assumes "\<And>k' e. k' \<noteq> k \<Longrightarrow> f (k', e) = g (k', e)"
  shows "sum_list (map f (AList.delete k al)) = sum_list (map g (AList.delete k al))"
proof -
  have "map f (AList.delete k al) = map g (AList.delete k al)"
  proof (rule map_cong [OF refl])
    fix x assume "x \<in> set (AList.delete k al)"
    then have "fst x \<noteq> k" using delete_notin_dom [of k al] by auto
    then show "f x = g x" using assms [of "fst x" "snd x"] by simp
  qed
  then show ?thesis by (rule arg_cong)
qed

lemma next_event_step:
  assumes inv: "merger_inv mf" and step: "next_event mf = Inr (e, mf')"
  shows "merger_inv mf' \<and> pending mf = add_mset e (pending mf')
           \<and> (\<forall>x \<in># pending mf. event_id e \<le> event_id x)"
proof -
  from step obtain item items where Cons: "events_dict mf = item # items"
    by (cases "events_dict mf") (simp_all add: next_event_unfold)
  define k where "k = fst (min_item (hd (events_dict mf)) (tl (events_dict mf)))"
  define v where "v = snd (min_item item items)"
  have dist: "distinct (map fst (events_dict mf))"
    using inv unfolding merger_inv_def by simp
  have "min_item item items \<in> set (events_dict mf)"
    using min_item_in [of item items] Cons by simp
  then have "(k, v) \<in> set (events_dict mf)"
    unfolding k_def v_def Cons by simp
  with dist have v: "map_of (events_dict mf) k = Some v" by simp
  with inv obtain rows where rows: "map_of (file_dict mf) k = Some rows"
    and sorted_rows: "sorted (map event_id (v # rows))"
    unfolding merger_inv_def by blast
  have e: "e = v"
    using step v rows Cons unfolding next_event_unfold Let_def k_def [symmetric]
    by (auto split: list.splits)
  have least: "event_id v \<le> event_id x" if "x \<in># pending mf" for x
  proof -
    from that obtain k' e' where in_events: "(k', e') \<in> set (events_dict mf)"
      and x: "x = e' \<or> x \<in> set (rows_of mf k')"
      unfolding pending_member by blast
    have "event_id v \<le> event_id e'"
      using min_item_le [of "(k', e')" item items] in_events Cons unfolding v_def by simp
    moreover from dist in_events have "map_of (events_dict mf) k' = Some e'" by simp
    with inv obtain rows' where "map_of (file_dict mf) k' = Some rows'"
      and "sorted (map event_id (e' # rows'))"
      unfolding merger_inv_def by blast
    with x have "event_id e' \<le> event_id x" by (auto simp: rows_of_def)
    ultimately show ?thesis by simp
  qed
  define f where "f = (\<lambda>(path, e). add_mset e (mset (rows_of mf path)))"
  define f' where "f' = (\<lambda>(path, e). add_mset e (mset (rows_of mf' path)))"
  have p: "pending mf = f (k, v) + sum_list (map f (AList.delete k (events_dict mf)))"
    unfolding pending_alt f_def [symmetric] using dist v by (rule sum_list_delete)
  have fk: "f (k, v) = add_mset v (mset rows)"
    unfolding f_def using rows by (simp add: rows_of_def)
  show ?thesis
  proof (cases rows)
    case Nil
    with step v rows Cons have mf': "mf' = mf\<lparr>events_dict := AList.delete k (events_dict mf)\<rparr>"
      unfolding next_event_unfold Let_def k_def [symmetric] by simp
    have "f' = f" unfolding f_def f'_def mf' rows_of_def by simp
    moreover have "pending mf' = sum_list (map f' (events_dict mf'))"
      unfolding pending_alt f'_def ..
    moreover have "events_dict mf' = AList.delete k (events_dict mf)"
      by (simp add: mf')
    ultimately have "pending mf' = sum_list (map f (AList.delete k (events_dict mf)))"
      by simp
    with p fk Nil have "pending mf = add_mset e (pending mf')" by (simp add: e)
    moreover have "merger_inv mf'"
      using inv unfolding merger_inv_def mf'
      by (auto simp: distinct_delete delete_conv' split: if_splits)
    ultimately show ?thesis using least e by simp
  next
    case (Cons r rest)
    with step v rows \<open>events_dict mf = item # items\<close>
    have mf': "mf' = mf\<lparr>file_dict := AList.update k rest (file_dict mf),
                          events_dict := AList.update k r (events_dict mf)\<rparr>"
      unfolding next_event_unfold Let_def k_def [symmetric] by simp
    have "pending mf' = sum_list (map f' (events_dict mf'))"
      unfolding pending_alt f'_def ..
    moreover have "events_dict mf' = AList.update k r (events_dict mf)"
      by (simp add: mf')
    ultimately
    have "pending mf' = f' (k, r) + sum_list (map f' (AList.delete k (events_dict mf)))"
      using sum_list_update [OF dist v, of f' r] by simp
    moreover have "f' (k, r) = add_mset r (mset rest)"
      unfolding f'_def mf' by (simp add: rows_of_def update_conv')
    moreover have "sum_list (map f' (AList.delete k (events_dict mf)))
                     = sum_list (map f (AList.delete k (events_dict mf)))"
      by (rule sum_list_delete_cong) (simp add: f_def f'_def mf' rows_of_def update_conv')
    ultimately have "pending mf = add_mset e (pending mf')"
      using p fk Cons by (simp add: e)
    moreover have "merger_inv mf'"
      unfolding merger_inv_def
    proof (intro conjI allI impI)
      show "distinct (map fst (events_dict mf'))"
        unfolding mf' using dist by (simp add: distinct_update)
    next
      fix k' e'
      assume a: "map_of (events_dict mf') k' = Some e'"
      show "\<exists>rows. map_of (file_dict mf') k' = Some rows \<and> sorted (map event_id (e' # rows))"
      proof (cases "k' = k")
        case True
        with a have "e' = r" unfolding mf' by (simp add: update_conv')
        with True sorted_rows Cons show ?thesis unfolding mf' by (simp add: update_conv')
      next
        case False
        with a have "map_of (events_dict mf) k' = Some e'"
          unfolding mf' by (simp add: update_conv')
        with inv obtain rows' where "map_of (file_dict mf) k' = Some rows'"
          and "sorted (map event_id (e' # rows'))"
          unfolding merger_inv_def by blast
        with False show ?thesis unfolding mf' by (simp add: update_conv')
      qed
    qed
    ultimately show ?thesis using least e by simp
  qed
qed

lemma iterate_correct:
  "merger_inv mf \<Longrightarrow>
     mset (fst (iterate mf)) = pending mf
     \<and> sorted (map event_id (fst (iterate mf)))
     \<and> fst (snd (iterate mf)) = StopIteration
     \<and> events_dict (snd (snd (iterate mf))) = []
     \<and> events_table_dict (snd (snd (iterate mf))) = events_table_dict mf"
proof (induction mf rule: iterate.induct)
  case (1 mf)
  show ?case
  proof (cases "next_event mf")
    case (Inl err)
    with 1(2) have "err = StopIteration" "events_dict mf = []"
      using next_event_stop by blast+
    with Inl show ?thesis
      by (subst (1 2 3 4 5) iterate.simps) (simp add: pending_def)
  next
    case (Inr r)
    obtain e mf' where r: "r = (e, mf')" by (cases r)
    from 1(2) Inr r have s: "merger_inv mf'" "pending mf = add_mset e (pending mf')"
      "\<forall>x \<in># pending mf. event_id e \<le> event_id x"
      using next_event_step by blast+
    from 1(1) [OF Inr [unfolded r] refl s(1)]
    have ih: "mset (fst (iterate mf')) = pending mf'"
      "sorted (map event_id (fst (iterate mf')))"
      "fst (snd (iterate mf')) = StopIteration"
      "events_dict (snd (snd (iterate mf'))) = []"
      "events_table_dict (snd (snd (iterate mf'))) = events_table_dict mf'"
      by simp_all
    have tab: "events_table_dict mf' = events_table_dict mf"
      using Inr r unfolding next_event_unfold Let_def
      by (auto split: if_splits option.splits list.splits)
    have it: "iterate mf = (e # fst (iterate mf'), snd (iterate mf'))"
      by (subst iterate.simps) (simp add: Inr r split: prod.splits)
    have "\<forall>x \<in> set (fst (iterate mf')). event_id e \<le> event_id x"
      using s(2,3) ih(1) by (metis set_mset_mset union_single_eq_member mset_add insert_iff set_mset_add_mset_insert)
    with ih tab s(2) show ?thesis unfolding it by simp
  qed
qed

lemma update_fresh: "k \<notin> fst ` set al \<Longrightarrow> AList.update k v al = al @ [(k, v)]"
  by (induction al) auto

lemma update_fresh_last:
  "k \<notin> fst ` set al \<Longrightarrow> AList.update k v' (al @ [(k, v)]) = al @ [(k, v')]"
  by (induction al) auto

lemma open_inputs:
  "distinct paths \<Longrightarrow>
     fold (open_input fs) paths empty_dicts =
       \<lparr>file_dict = map (\<lambda>p. (p, tl (Events (fs p)))) paths,
        events_dict = concat (map (\<lambda>p. case Events (fs p) of [] \<Rightarrow> [] | e # rest \<Rightarrow> [(p, e)]) paths),
        events_table_dict = map (\<lambda>p. (p, Events (fs p))) paths,
        camera_config_dict =
          concat (map (\<lambda>p. case first_config (fs p) of None \<Rightarrow> [] | Some c \<Rightarrow> [(p, c)]) paths)\<rparr>"
proof (induction paths rule: rev_induct)
  case Nil
  show ?case by (simp add: empty_dicts_def)
next
  case (snoc x xs)
  then have d: "distinct xs" and x: "x \<notin> set xs" by simp_all
  have k1: "x \<notin> fst ` set (map (\<lambda>p. (p, tl (Events (fs p)))) xs)"
    using x by (auto simp: image_iff)
  have k2: "x \<notin> fst ` set (concat (map (\<lambda>p. case Events (fs p) of [] \<Rightarrow> []
                                                | e # rest \<Rightarrow> [(p, e)]) xs))"
    using x by (auto simp: image_iff split: list.splits)
  have k3: "x \<notin> fst ` set (map (\<lambda>p. (p, Events (fs p))) xs)"
    using x by (auto simp: image_iff)
  have k4: "x \<notin> fst ` set (concat (map (\<lambda>p. case first_config (fs p) of None \<Rightarrow> []
                                                | Some c \<Rightarrow> [(p, c)]) xs))"
    using x by (auto simp: image_iff split: option.splits)
  have fc: "first_config (fs x) =
      (case Events (fs x) of
         [] \<Rightarrow> None
       | e # rest \<Rightarrow>
           (case CameraConfig (fs x) of
              None \<Rightarrow> None
            | Some [] \<Rightarrow> None
            | Some (config # configs) \<Rightarrow> Some config))"
    by (simp add: first_config_def)
  show ?case
    unfolding fold_append comp_def fold_simps snoc.IH [OF d]
    unfolding open_input_def Let_def
    by (simp add: fc update_fresh [OF k1] update_fresh [OF k2] update_fresh [OF k3]
          update_fresh [OF k4] update_fresh_last [OF k1]
          split: list.splits option.splits)
qed

lemma map_of_graph:
  "map_of (map (\<lambda>p. (p, f p)) ps) k = (if k \<in> set ps then Some (f k) else None)"
  by (induction ps) auto

lemma heads_keys:
  "map fst (concat (map (\<lambda>p. case E p of [] \<Rightarrow> [] | e # rest \<Rightarrow> [(p, e)]) ps))
     = filter (\<lambda>p. E p \<noteq> []) ps"
  by (induction ps) (auto split: list.splits)

lemma heads_member:
  "(k, e) \<in> set (concat (map (\<lambda>p. case E p of [] \<Rightarrow> [] | e # rest \<Rightarrow> [(p, e)]) ps))
     \<longleftrightarrow> k \<in> set ps \<and> (\<exists>rest. E k = e # rest)"
  by (induction ps) (auto split: list.splits intro: sym)

lemma heads_sum:
  "\<forall>p \<in> set ps. r p = tl (E p) \<Longrightarrow>
     (\<Sum>(p, e) \<leftarrow> concat (map (\<lambda>p. case E p of [] \<Rightarrow> [] | e # rest \<Rightarrow> [(p, e)]) ps).
         add_mset e (mset (r p)))
       = (\<Sum>p \<leftarrow> ps. mset (E p))"
  by (induction ps) (auto split: list.splits)

lemma tables_sum:
  "(\<Sum>(p, table) \<leftarrow> map (\<lambda>p. (p, E p)) ps. length table) = (\<Sum>p \<leftarrow> ps. length (E p))"
  by (induction ps) auto

lemma init_dicts:
  assumes "MultiFiles_init fs paths = Inr mf"
  shows "multifiles_dicts.truncate mf = fold (open_input fs) paths empty_dicts"
  using assms unfolding MultiFiles_init_def Let_def multifiles_dicts.truncate_def
  by (auto split: if_splits)

lemma init_state:
  assumes "MultiFiles_init fs paths = Inr mf" and "distinct paths"
  shows "file_dict mf = map (\<lambda>p. (p, tl (Events (fs p)))) paths"
    and "events_dict mf =
           concat (map (\<lambda>p. case Events (fs p) of [] \<Rightarrow> [] | e # rest \<Rightarrow> [(p, e)]) paths)"
    and "events_table_dict mf = map (\<lambda>p. (p, Events (fs p))) paths"
  using assms(1) unfolding MultiFiles_init_def Let_def open_inputs [OF assms(2)]
  by (auto split: if_splits)

lemma init_inv:
  assumes "MultiFiles_init fs paths = Inr mf" and "distinct paths"
    and "\<forall>p \<in> set paths. sorted (map event_id (Events (fs p)))"
  shows "merger_inv mf"
  unfolding merger_inv_def
proof (intro conjI allI impI)
  show dist: "distinct (map fst (events_dict mf))"
    unfolding init_state(2) [OF assms(1,2)] heads_keys using assms(2) by simp
  fix k e
  assume "map_of (events_dict mf) k = Some e"
  with dist have "(k, e) \<in> set (events_dict mf)" by simp
  then obtain rest where k: "k \<in> set paths" and rest: "Events (fs k) = e # rest"
    unfolding init_state(2) [OF assms(1,2)] heads_member by blast
  have "map_of (file_dict mf) k = Some rest"
    unfolding init_state(1) [OF assms(1,2)] map_of_graph using k rest by simp
  moreover have "sorted (map event_id (e # rest))"
    using assms(3) k rest by (metis)
  ultimately
  show "\<exists>rows. map_of (file_dict mf) k = Some rows \<and> sorted (map event_id (e # rows))"
    by blast
qed

lemma init_pending:
  assumes "MultiFiles_init fs paths = Inr mf" and "distinct paths"
  shows "pending mf = (\<Sum>p \<leftarrow> paths. mset (Events (fs p)))"
proof -
  have "\<forall>p \<in> set paths. rows_of mf p = tl (Events (fs p))"
    unfolding rows_of_def init_state(1) [OF assms] map_of_graph by simp
  then show ?thesis
    unfolding pending_alt init_state(2) [OF assms] by (rule heads_sum)
qed

text \<open>
  Claim C2. For a merger built over pairwise different paths whose event tables are each in
  ascending order of \<^verbatim>\<open>event_id\<close>, the events returned by the repeated calls of
  \<^verbatim>\<open>next_event\<close> are exactly the events of all the inputs, each as often as it occurs there,
  in ascending order of \<^verbatim>\<open>event_id\<close>; the iteration ends, it ends with
  \<^verbatim>\<open>StopIteration\<close>, and so does every later call; and \<^verbatim>\<open>__len__\<close> is the sum of the
  lengths of the event tables.
\<close>

theorem multifiles_merge:
  assumes "MultiFiles_init fs paths = Inr mf"
    and "distinct paths"
    and "\<forall>p \<in> set paths. sorted (map event_id (Events (fs p)))"
  shows "mset (fst (iterate mf)) = (\<Sum>p \<leftarrow> paths. mset (Events (fs p)))
         \<and> sorted (map event_id (fst (iterate mf)))
         \<and> fst (snd (iterate mf)) = StopIteration
         \<and> next_event (snd (snd (iterate mf))) = Inl StopIteration
         \<and> multifiles_len mf = (\<Sum>p \<leftarrow> paths. length (Events (fs p)))"
proof -
  have "merger_inv mf" using assms by (rule init_inv)
  then have c: "mset (fst (iterate mf)) = pending mf"
    "sorted (map event_id (fst (iterate mf)))"
    "fst (snd (iterate mf)) = StopIteration"
    "events_dict (snd (snd (iterate mf))) = []"
    using iterate_correct [of mf] by simp_all
  have "next_event (snd (snd (iterate mf))) = Inl StopIteration"
    using c(4) by (simp add: next_event_unfold)
  moreover have "multifiles_len mf = (\<Sum>p \<leftarrow> paths. length (Events (fs p)))"
    unfolding multifiles_len_def init_state(3) [OF assms(1,2)] by (rule tables_sum)
  ultimately show ?thesis
    using c init_pending [OF assms(1,2)] by simp
qed

lemma configs_read_dict:
  "map snd (concat (map (\<lambda>p. case first_config (fs p) of None \<Rightarrow> [] | Some c \<Rightarrow> [(p, c)]) paths))
     = configs_read fs paths"
  unfolding configs_read_def by (induction paths) (auto split: option.splits)

lemma init_configs:
  assumes "distinct paths"
  shows "map snd (camera_config_dict (fold (open_input fs) paths empty_dicts))
           = configs_read fs paths"
  unfolding open_inputs [OF assms] by (simp add: configs_read_dict)

text \<open>
  Claim C9, as stated: a camera-configuration record is present in the only input and the
  construction still fails with \<^verbatim>\<open>NoConfig\<close>, because the input has no event: the
  \<^verbatim>\<open>StopIteration\<close> of its first \<^verbatim>\<open>next\<close> is caught before the configuration is read.
\<close>

theorem multifiles_init_counterexample:
  "configs_present example_inputs [''c''] = [example_config]
   \<and> MultiFiles_init example_inputs [''c''] = Inl NoConfig"
  by (simp add: configs_present_def example_inputs_def MultiFiles_init_def open_input_def
        empty_dicts_def)

text \<open>
  Claim C9, amended. Over pairwise different paths, with the camera configurations read
  being the first record of each input that has at least one event and a non-empty
  \<^verbatim>\<open>CameraConfig\<close> table: the construction fails with \<^verbatim>\<open>EmptyPaths\<close> for no path, with
  \<^verbatim>\<open>ConfigMismatch\<close> when these configurations carry more than one \<^verbatim>\<open>configuration_id\<close>,
  with \<^verbatim>\<open>NoConfig\<close> when there is none, and otherwise succeeds with \<^verbatim>\<open>camera_config\<close> the
  first of them.
\<close>

theorem multifiles_init_errors:
  assumes "distinct paths"
  shows "map_sum id camera_config (MultiFiles_init fs paths) =
           (if paths = [] then Inl EmptyPaths
            else if card (configuration_id ` set (configs_read fs paths)) > 1
              then Inl ConfigMismatch
            else if configs_read fs paths = [] then Inl NoConfig
            else Inr (hd (configs_read fs paths)))"
proof -
  define d where "d = fold (open_input fs) paths empty_dicts"
  have c: "map snd (camera_config_dict d) = configs_read fs paths"
    unfolding d_def using assms by (rule init_configs)
  have ids: "set (map (\<lambda>(path, config). configuration_id config) (camera_config_dict d))
               = configuration_id ` set (configs_read fs paths)"
    unfolding c [symmetric] by (force simp: image_iff)
  have len: "length (camera_config_dict d) = 0 \<longleftrightarrow> configs_read fs paths = []"
    unfolding c [symmetric] by simp
  have hd: "camera_config_dict d \<noteq> [] \<Longrightarrow>
              snd (hd (camera_config_dict d)) = hd (configs_read fs paths)"
    unfolding c [symmetric] by (simp add: hd_map)
  show ?thesis
    unfolding MultiFiles_init_def Let_def d_def [symmetric] ids len
    using hd len by auto
qed

text \<open>
  The theorem at the three example inputs.
\<close>

theorem multifiles_init_errors_witness:
  "distinct [''a'', ''b'', ''c'']
   \<and> map_sum id camera_config (MultiFiles_init example_inputs [''a'', ''b'', ''c''])
       = Inr example_config"
  using multifiles_init_errors [of "[''a'', ''b'', ''c'']" example_inputs]
  by (simp add: configs_read_def first_config_def example_inputs_def)

text \<open>
  The theorem at the three example inputs.
\<close>

theorem multifiles_merge_witness:
  "\<exists>mf. MultiFiles_init example_inputs [''a'', ''b'', ''c''] = Inr mf
     \<and> mset (fst (iterate mf))
         = {#example_event 1, example_event 2, example_event 3, example_event 4#}
     \<and> sorted (map event_id (fst (iterate mf)))
     \<and> fst (snd (iterate mf)) = StopIteration
     \<and> next_event (snd (snd (iterate mf))) = Inl StopIteration
     \<and> multifiles_len mf = 4"
proof -
  obtain mf where mf: "MultiFiles_init example_inputs [''a'', ''b'', ''c''] = Inr mf"
    by (simp add: MultiFiles_init_def open_input_def empty_dicts_def example_inputs_def
          example_config_def)
  have d: "distinct [''a'', ''b'', ''c'']" by simp
  have s: "\<forall>p \<in> set [''a'', ''b'', ''c'']. sorted (map event_id (Events (example_inputs p)))"
    by (simp add: example_inputs_def example_event_def)
  show ?thesis
    using multifiles_merge [OF mf d s] mf
    by (simp add: example_inputs_def)
qed

section \<open>Properties of the pedestal subtraction\<close>

lemma fold_cells:
  fixes body :: "nat \<times> nat \<Rightarrow> (nat \<Rightarrow> nat \<Rightarrow> 'a) \<Rightarrow> (nat \<Rightarrow> nat \<Rightarrow> 'a) option"
  assumes step: "\<And>g p w. (g, p) \<in> set ks \<Longrightarrow> w g p = w0 g p \<Longrightarrow>
                   body (g, p) w = Some (w(g := (w g)(p := F g p)))"
  shows "distinct ks \<Longrightarrow> set js \<subseteq> set ks \<Longrightarrow> distinct js \<Longrightarrow>
         \<forall>(g, p) \<in> set js. w g p = w0 g p \<Longrightarrow>
         fold_option body js w = Some (\<lambda>g p. if (g, p) \<in> set js then F g p else w g p)"
proof (induction js arbitrary: w)
  case Nil
  show ?case by simp
next
  case (Cons k js)
  obtain g p where k: "k = (g, p)" by (cases k)
  have b: "body (g, p) w = Some (w(g := (w g)(p := F g p)))"
    using Cons.prems k by (intro step) auto
  define w' where "w' = w(g := (w g)(p := F g p))"
  have "\<forall>(g', p') \<in> set js. w' g' p' = w0 g' p'"
    using Cons.prems k unfolding w'_def by auto
  moreover have "set js \<subseteq> set ks" "distinct js" using Cons.prems by simp_all
  ultimately
  have "fold_option body js w' = Some (\<lambda>g' p'. if (g', p') \<in> set js then F g' p' else w' g' p')"
    using Cons.prems(1) by (intro Cons.IH)
  moreover have "(\<lambda>g' p'. if (g', p') \<in> set js then F g' p' else w' g' p')
               = (\<lambda>g' p'. if (g', p') \<in> set (k # js) then F g' p' else w g' p')"
    unfolding w'_def by (intro ext) (auto simp: k)
  moreover have "fold_option body (k # js) w = fold_option body js w'"
    unfolding w'_def by (simp add: k b)
  ultimately show ?case by simp
qed

lemma slice_in_range:
  assumes "0 \<le> a" and "a \<le> b" and "b \<le> int (length xs)"
  shows "slice xs a b = take (nat (b - a)) (drop (nat a) xs)"
proof -
  have "slice_bound (length xs) a = nat a" "slice_bound (length xs) b = nat b"
    using assms by (auto simp: slice_bound_def)
  moreover have "nat b - nat a = nat (b - a)" using assms by simp
  ultimately show ?thesis by (simp add: slice_def)
qed

lemma pedestal_row_of_file:
  assumes "get_drs4_pedestal_data (Some data) offset = Inr pedestal"
    and "gain < N_GAINS" and "pixel < N_PIXELS"
  shows "length (data gain pixel) = N_CAPACITORS_PIXEL
         \<and> pedestal gain pixel
             = map (\<lambda>x. x - word_of_int offset)
                 (data gain pixel @ take N_SAMPLES (data gain pixel))"
proof -
  from assms(1) have ok: "file_shape_ok data"
    by (auto simp: get_drs4_pedestal_data_def split: if_splits)
  have px: "pixel < N_PIXELS_MODULE * N_MODULES"
    using assms(3) by (simp add: N_defs)
  from ok assms(2) px have len: "length (data gain pixel) = N_CAPACITORS_PIXEL"
    by (simp add: file_shape_ok_def list_all_iff)
  have "slice (data gain pixel) 0 (int N_SAMPLES) = take N_SAMPLES (data gain pixel)"
    using len by (subst slice_in_range) (simp_all add: N_defs)
  with assms ok px len show ?thesis
    by (cases "offset = 0") (auto simp: get_drs4_pedestal_data_def Let_def)
qed

lemma pedestal_row:
  assumes "get_drs4_pedestal_data path offset = Inr pedestal"
    and "gain < N_GAINS" and "pixel < N_PIXELS"
  shows "\<exists>row. length row = N_CAPACITORS_PIXEL
           \<and> pedestal gain pixel = map (\<lambda>x. x - word_of_int offset) (row @ take N_SAMPLES row)"
proof -
  from assms(1) obtain data where "path = Some data"
    by (auto simp: get_drs4_pedestal_data_def split: option.splits)
  with pedestal_row_of_file [of data offset pedestal gain pixel] assms show ?thesis
    by blast
qed

lemma pedestal_duplicate:
  assumes "get_drs4_pedestal_data path offset = Inr pedestal"
    and "gain < N_GAINS" and "pixel < N_PIXELS" and "s < N_SAMPLES"
  shows "length (pedestal gain pixel) = N_CAPACITORS_PIXEL + N_SAMPLES"
    and "pedestal gain pixel ! (N_CAPACITORS_PIXEL + s) = pedestal gain pixel ! s"
proof -
  from pedestal_row [OF assms(1-3)] obtain row where len: "length row = N_CAPACITORS_PIXEL"
    and p: "pedestal gain pixel = map (\<lambda>x. x - word_of_int offset) (row @ take N_SAMPLES row)"
    by blast
  show "length (pedestal gain pixel) = N_CAPACITORS_PIXEL + N_SAMPLES"
    unfolding p using len by (simp add: N_defs)
  show "pedestal gain pixel ! (N_CAPACITORS_PIXEL + s) = pedestal gain pixel ! s"
    unfolding p using len assms(4) by (simp add: nth_append N_defs)
qed

lemma pedestal_modular:
  assumes "get_drs4_pedestal_data path offset = Inr pedestal"
    and "gain < N_GAINS" and "pixel < N_PIXELS" and "s < N_SAMPLES"
    and "fc < N_CAPACITORS_PIXEL"
  shows "pedestal gain pixel ! (fc + s) = pedestal gain pixel ! ((fc + s) mod N_CAPACITORS_PIXEL)"
proof (cases "fc + s < N_CAPACITORS_PIXEL")
  case True
  then show ?thesis by simp
next
  case False
  define s' where "s' = fc + s - N_CAPACITORS_PIXEL"
  have s': "s' < N_SAMPLES" "fc + s = N_CAPACITORS_PIXEL + s'"
    using False assms(4,5) unfolding s'_def by simp_all
  have "s' < N_CAPACITORS_PIXEL" using s'(1) by (simp add: N_defs)
  then have "(fc + s) mod N_CAPACITORS_PIXEL = s'" unfolding s'(2) by simp
  then show ?thesis
    using pedestal_duplicate(2) [OF assms(1-3) s'(1)] s'(2) by simp
qed

lemma subtract_pedestal_cells:
  "subtract_pedestal waveform first_capacitors pedestal =
     fold_option (\<lambda>(gain, pixel_id). subtract_pedestal_pixel first_capacitors pedestal gain pixel_id)
       (concat (map (\<lambda>gain. map (Pair gain) [0..<N_PIXELS]) [0..<N_GAINS])) waveform"
proof -
  have "fold_option (subtract_pedestal_pixel first_capacitors pedestal gain) ps w =
          fold_option (\<lambda>(gain, pixel_id). subtract_pedestal_pixel first_capacitors pedestal gain pixel_id)
            (map (Pair gain) ps) w" for gain ps w
  proof (induction ps arbitrary: w)
    case Nil
    show ?case by simp
  next
    case (Cons p ps)
    then show ?case by (simp split: option.splits)
  qed
  then show ?thesis unfolding subtract_pedestal_def by (rule fold_option_concat)
qed

lemma cells_distinct:
  "distinct (concat (map (\<lambda>gain. map (Pair gain) [0..<m]) [0..<n]))"
  by (induction n) (auto simp: distinct_map inj_on_def)

lemma cells_set:
  "(g, p) \<in> set (concat (map (\<lambda>gain. map (Pair gain) [0..<m]) [0..<n])) \<longleftrightarrow> g < n \<and> p < m"
  by (induction n) auto

text \<open>
  Claim C4. With the table of \<^verbatim>\<open>_get_drs4_pedestal_data\<close>, first capacitors in
  \<open>0 \<le> fc < 4096\<close> and waveform rows of \<^verbatim>\<open>N_SAMPLES\<close> samples, \<^verbatim>\<open>subtract_pedestal\<close>
  returns, and for every gain, pixel and sample \<open>s\<close> in \<open>0..39\<close> the new sample is the old one
  minus \<open>pedestal[g, p, (fc[g, p] + s) mod 4096]\<close>; the table satisfies
  \<open>pedestal[g, p, 4096 + s] = pedestal[g, p, s]\<close>.
\<close>

theorem subtract_pedestal_modular:
  assumes ped: "get_drs4_pedestal_data path offset = Inr pedestal"
    and caps: "\<forall>g < N_GAINS. \<forall>p < N_PIXELS. 0 \<le> first_capacitors g p \<and> first_capacitors g p < int N_CAPACITORS_PIXEL"
    and shape: "\<forall>g < N_GAINS. \<forall>p < N_PIXELS. length (waveform g p) = N_SAMPLES"
  shows "\<exists>waveform'. subtract_pedestal waveform first_capacitors pedestal = Some waveform'
           \<and> (\<forall>g < N_GAINS. \<forall>p < N_PIXELS.
                 length (waveform' g p) = N_SAMPLES
                 \<and> (\<forall>s < N_SAMPLES.
                       waveform' g p ! s =
                         waveform g p ! s
                         - real_of_int (sint (pedestal g p ! ((nat (first_capacitors g p) + s) mod N_CAPACITORS_PIXEL)))
                       \<and> pedestal g p ! (N_CAPACITORS_PIXEL + s) = pedestal g p ! s))"
proof -
  define ks where "ks = concat (map (\<lambda>gain. map (Pair gain) [0..<N_PIXELS]) [0..<N_GAINS])"
  define F where "F = (\<lambda>g p. map2 (\<lambda>x v. x - real_of_int (sint v)) (waveform g p)
                              (take N_SAMPLES (drop (nat (first_capacitors g p)) (pedestal g p))))"
  have ks: "(g, p) \<in> set ks \<longleftrightarrow> g < N_GAINS \<and> p < N_PIXELS" for g p
    unfolding ks_def by (rule cells_set)
  have dist: "distinct ks" unfolding ks_def by (rule cells_distinct)
  have sl: "slice (pedestal g p) (first_capacitors g p) (first_capacitors g p + int N_SAMPLES)
              = take N_SAMPLES (drop (nat (first_capacitors g p)) (pedestal g p))"
    and sl_len: "length (take N_SAMPLES (drop (nat (first_capacitors g p)) (pedestal g p))) = N_SAMPLES"
    if "g < N_GAINS" "p < N_PIXELS" for g p
  proof -
    have len: "length (pedestal g p) = N_CAPACITORS_PIXEL + N_SAMPLES"
      using pedestal_duplicate(1) [OF ped that, of 0] by (simp add: N_defs)
    have r: "0 \<le> first_capacitors g p" "first_capacitors g p < int N_CAPACITORS_PIXEL" using caps that by simp_all
    show "slice (pedestal g p) (first_capacitors g p) (first_capacitors g p + int N_SAMPLES)
            = take N_SAMPLES (drop (nat (first_capacitors g p)) (pedestal g p))"
      using r len by (subst slice_in_range) simp_all
    show "length (take N_SAMPLES (drop (nat (first_capacitors g p)) (pedestal g p))) = N_SAMPLES"
      using r len by simp
  qed
  have step: "(case (g, p) of (gain, pixel_id) \<Rightarrow> subtract_pedestal_pixel first_capacitors pedestal gain pixel_id) w
                = Some (w(g := (w g)(p := F g p)))"
    if "(g, p) \<in> set ks" "w g p = waveform g p" for g p w
  proof -
    from that(1) have r: "g < N_GAINS" "p < N_PIXELS" by (simp_all add: ks)
    have "length (waveform g p) = N_SAMPLES" using shape r by simp
    then have "subtract_row (w g p) (take N_SAMPLES (drop (nat (first_capacitors g p)) (pedestal g p)))
                 = Some (F g p)"
      unfolding F_def subtract_row_def using sl_len [OF r] that(2) by simp
    then show ?thesis
      by (simp add: subtract_pedestal_pixel_def Let_def sl [OF r])
  qed
  have "fold_option (\<lambda>(gain, pixel_id). subtract_pedestal_pixel first_capacitors pedestal gain pixel_id) ks waveform
          = Some (\<lambda>g p. if (g, p) \<in> set ks then F g p else waveform g p)"
    using step dist by (rule fold_cells) (auto simp: dist)
  then have res: "subtract_pedestal waveform first_capacitors pedestal
          = Some (\<lambda>g p. if (g, p) \<in> set ks then F g p else waveform g p)"
    unfolding subtract_pedestal_cells ks_def .
  have "length (F g p) = N_SAMPLES
        \<and> (\<forall>s < N_SAMPLES.
              F g p ! s = waveform g p ! s
                - real_of_int (sint (pedestal g p ! ((nat (first_capacitors g p) + s) mod N_CAPACITORS_PIXEL)))
              \<and> pedestal g p ! (N_CAPACITORS_PIXEL + s) = pedestal g p ! s)"
    if r: "g < N_GAINS" "p < N_PIXELS" for g p
  proof (intro conjI allI impI)
    have len: "length (pedestal g p) = N_CAPACITORS_PIXEL + N_SAMPLES"
      using pedestal_duplicate(1) [OF ped r, of 0] by (simp add: N_defs)
    have wl: "length (waveform g p) = N_SAMPLES" using shape r by simp
    have "0 \<le> first_capacitors g p" "first_capacitors g p < int N_CAPACITORS_PIXEL"
      using caps r by simp_all
    then have c: "nat (first_capacitors g p) < N_CAPACITORS_PIXEL" by linarith
    show "length (F g p) = N_SAMPLES"
      unfolding F_def using sl_len [OF r] wl by simp
    fix s assume s: "s < N_SAMPLES"
    show "pedestal g p ! (N_CAPACITORS_PIXEL + s) = pedestal g p ! s"
      using ped r s by (rule pedestal_duplicate(2))
    have "F g p ! s = waveform g p ! s - real_of_int (sint (pedestal g p ! (nat (first_capacitors g p) + s)))"
      unfolding F_def using s wl sl_len [OF r] len c by simp
    then show "F g p ! s = waveform g p ! s
                - real_of_int (sint (pedestal g p ! ((nat (first_capacitors g p) + s) mod N_CAPACITORS_PIXEL)))"
      using pedestal_modular [OF ped r s c] by simp
  qed
  then show ?thesis unfolding res by (simp add: ks)
qed

text \<open>
  The theorem at the example: sample 39 of a pixel reads capacitor
  \<open>(4090 + 39) mod 4096 = 33\<close>, whose pedestal is \<open>33 - 400\<close>.
\<close>

theorem subtract_pedestal_modular_witness:
  "\<exists>pedestal waveform'.
     get_drs4_pedestal_data (Some example_pedestal_file) 400 = Inr pedestal
     \<and> subtract_pedestal example_waveform example_first_capacitors pedestal = Some waveform'
     \<and> pedestal 1 3 ! 4129 = - 367
     \<and> waveform' 1 3 ! 39 = 1367"
proof -
  have ok: "file_shape_ok example_pedestal_file"
    by (simp add: file_shape_ok_def list_all_iff example_pedestal_file_def)
  then obtain pedestal
    where p: "get_drs4_pedestal_data (Some example_pedestal_file) 400 = Inr pedestal"
    by (simp add: get_drs4_pedestal_data_def)
  have caps: "\<forall>g < N_GAINS. \<forall>p < N_PIXELS.
      0 \<le> example_first_capacitors g p \<and> example_first_capacitors g p < int N_CAPACITORS_PIXEL"
    by (simp add: example_first_capacitors_def N_defs)
  have shape: "\<forall>g < N_GAINS. \<forall>p < N_PIXELS. length (example_waveform g p) = N_SAMPLES"
    by (simp add: example_waveform_def)
  from subtract_pedestal_modular [OF p caps shape] obtain waveform' where
    r: "subtract_pedestal example_waveform example_first_capacitors pedestal = Some waveform'"
    and v: "\<forall>g < N_GAINS. \<forall>p < N_PIXELS.
              length (waveform' g p) = N_SAMPLES
              \<and> (\<forall>s < N_SAMPLES.
                    waveform' g p ! s =
                      example_waveform g p ! s
                      - real_of_int (sint (pedestal g p
                          ! ((nat (example_first_capacitors g p) + s) mod N_CAPACITORS_PIXEL)))
                    \<and> pedestal g p ! (N_CAPACITORS_PIXEL + s) = pedestal g p ! s)"
    by blast
  have i: "(1::nat) < N_GAINS" "(3::nat) < N_PIXELS" "(39::nat) < N_SAMPLES"
    "(33::nat) < N_CAPACITORS_PIXEL"
    by (simp_all add: N_defs)
  have m: "(nat (example_first_capacitors 1 3) + 39) mod N_CAPACITORS_PIXEL = 33"
    by (simp add: example_first_capacitors_def N_defs)
  have j: "(33::nat) < N_SAMPLES" by (simp add: N_defs)
  from v i(1,2) have cell: "\<forall>s < N_SAMPLES.
      waveform' 1 3 ! s =
        example_waveform 1 3 ! s
        - real_of_int (sint (pedestal 1 3
            ! ((nat (example_first_capacitors 1 3) + s) mod N_CAPACITORS_PIXEL)))
      \<and> pedestal 1 3 ! (N_CAPACITORS_PIXEL + s) = pedestal 1 3 ! s"
    by blast
  from cell i(3) have "waveform' 1 3 ! 39 =
        example_waveform 1 3 ! 39
        - real_of_int (sint (pedestal 1 3
            ! ((nat (example_first_capacitors 1 3) + 39) mod N_CAPACITORS_PIXEL)))"
    by blast
  then have w: "waveform' 1 3 ! 39 = example_waveform 1 3 ! 39
                     - real_of_int (sint (pedestal 1 3 ! 33))"
    unfolding m .
  from cell j have d: "pedestal 1 3 ! (N_CAPACITORS_PIXEL + 33) = pedestal 1 3 ! 33"
    by blast
  have "example_pedestal_file 1 3 ! 33 = 33"
    unfolding example_pedestal_file_def using i(4) by simp
  moreover have "length (example_pedestal_file 1 3) = N_CAPACITORS_PIXEL"
    by (simp add: example_pedestal_file_def)
  ultimately have c: "pedestal 1 3 ! 33 = - 367"
    using pedestal_row_of_file [OF p i(1,2)] i(4) by (simp add: nth_append)
  have "sint (- 367 :: 16 word) = - 367" by simp
  with c w d r p show ?thesis
    by (simp add: example_waveform_def N_defs)
qed

section \<open>Properties of the selected gain\<close>

lemma np_assign_shape:
  "np_assign a idx vs = Some a' \<Longrightarrow>
     length vs = length idx \<and> (\<forall>i \<in> set idx. i < length a) \<and> length a' = length a"
  by (induction a idx vs rule: np_assign.induct) (auto split: if_splits)

lemma np_assign_other:
  "np_assign a idx vs = Some a' \<Longrightarrow> p \<notin> set idx \<Longrightarrow> a' ! p = a ! p"
  by (induction a idx vs rule: np_assign.induct) (auto split: if_splits)

lemma np_assign_hit:
  "np_assign a idx vs = Some a' \<Longrightarrow> distinct idx \<Longrightarrow> k < length idx \<Longrightarrow>
     a' ! (idx ! k) = vs ! k"
proof (induction a idx vs arbitrary: k rule: np_assign.induct)
  case (2 a i idx v vs)
  then have i: "i < length a" and r: "np_assign (a[i := v]) idx vs = Some a'"
    by (auto split: if_splits)
  show ?case
  proof (cases k)
    case 0
    have "a' ! i = (a[i := v]) ! i"
      using r "2.prems"(2) by (intro np_assign_other) auto
    with i 0 show ?thesis by simp
  next
    case (Suc k')
    with "2.IH" [OF i r, of k'] "2.prems" show ?thesis by simp
  qed
qed simp_all

lemma np_assign_values:
  "np_assign a idx vs = Some a' \<Longrightarrow> p < length a \<Longrightarrow> a' ! p \<in> set vs \<or> a' ! p = a ! p"
proof (induction a idx vs rule: np_assign.induct)
  case (2 a i idx v vs)
  then have i: "i < length a" and r: "np_assign (a[i := v]) idx vs = Some a'"
    by (auto split: if_splits)
  from "2.IH" [OF i r] "2.prems"(2) have "a' ! p \<in> set vs \<or> a' ! p = (a[i := v]) ! p"
    by simp
  then show ?case using i "2.prems"(2) by (cases "p = i") auto
qed simp_all

lemma fill_selected_gain:
  assumes "fill_r0r1_camera_container self_camera_config zfits_event = Inr r"
    and "selected_gain_channel r = Some sg"
  shows "np_setitem (replicate N_PIXELS (- 1)) (config_expected_pixels_id self_camera_config)
           (broadcast (length (config_expected_pixels_id self_camera_config))
              (map (\<lambda>s. if s AND PixelStatus_HIGH_GAIN_STORED \<noteq> 0 then 0 else 1)
                 (zfits_pixel_status zfits_event)))
         = Some sg"
  using assms unfolding fill_r0r1_camera_container_def Let_def
  by (auto simp: comp_def split: if_splits option.splits)

lemma example_fill:
  "\<exists>r sg. fill_r0r1_camera_container example_camera_config example_camera_event = Inr r
     \<and> selected_gain_channel r = Some sg"
proof -
  have u: "[0..<3] = [0, 1, 2]" by (simp add: numeral_3_eq_3)
  show ?thesis
    by (simp add: fill_r0r1_camera_container_def example_camera_config_def
          example_camera_event_def reshape_rows_def np_setitem_def broadcast_def
          broadcast_rows_def N_defs PixelStatus_HIGH_GAIN_STORED_def
          PixelStatus_LOW_GAIN_STORED_def Let_def u)
qed

text \<open>
  Claim C6, as stated: in a gain-selected event the second pixel has \<^verbatim>\<open>HIGH_GAIN_STORED\<close>
  and \<^verbatim>\<open>LOW_GAIN_STORED\<close> both set and its selected gain is 0; the third pixel is broken
  (no bit set) and its selected gain is 1, not -1.
\<close>

theorem selected_gain_marker_counterexample:
  "\<exists>r sg. fill_r0r1_camera_container example_camera_config example_camera_event = Inr r
     \<and> selected_gain_channel r = Some sg
     \<and> sg ! 1 = 0
     \<and> \<not> spec_high_gain_only (zfits_pixel_status example_camera_event ! 1)
     \<and> sg ! 2 = 1
     \<and> zfits_pixel_status example_camera_event ! 2 = 0"
proof -
  from example_fill obtain r sg
    where r: "fill_r0r1_camera_container example_camera_config example_camera_event = Inr r"
      and sg: "selected_gain_channel r = Some sg"
    by blast
  have "np_assign (replicate N_PIXELS (- 1)) [0, 1, 2] [0, 0, 1] = Some sg"
    using fill_selected_gain [OF r sg]
    by (simp add: example_camera_config_def example_camera_event_def np_setitem_def
          broadcast_def PixelStatus_HIGH_GAIN_STORED_def)
  then have "sg ! 1 = 0" "sg ! 2 = 1"
    by (auto simp: N_defs)
  moreover have "\<not> spec_high_gain_only (zfits_pixel_status example_camera_event ! 1)"
    by (simp add: spec_high_gain_only_def example_camera_event_def
          PixelStatus_HIGH_GAIN_STORED_def PixelStatus_LOW_GAIN_STORED_def)
  moreover have "zfits_pixel_status example_camera_event ! 2 = 0"
    by (simp add: example_camera_event_def)
  ultimately show ?thesis using r sg by blast
qed

text \<open>
  Claim C6, amended. For a gain-selected event with one status for each expected pixel and
  pairwise different expected pixel ids: \<^verbatim>\<open>selected_gain_channel\<close> has \<^verbatim>\<open>N_PIXELS\<close> values,
  each of them 0, 1 or -1; the value of an expected pixel is 0 if its status has
  \<^verbatim>\<open>HIGH_GAIN_STORED\<close> set and 1 otherwise, whatever \<^verbatim>\<open>LOW_GAIN_STORED\<close> is; and the value
  is -1 exactly for the pixels that are not expected.
\<close>

theorem selected_gain_marker:
  assumes "fill_r0r1_camera_container self_camera_config zfits_event = Inr r"
    and "selected_gain_channel r = Some sg"
    and "distinct (config_expected_pixels_id self_camera_config)"
    and "length (zfits_pixel_status zfits_event)
           = length (config_expected_pixels_id self_camera_config)"
  shows "length sg = N_PIXELS
         \<and> (\<forall>p < N_PIXELS. sg ! p = 0 \<or> sg ! p = 1 \<or> sg ! p = - 1)
         \<and> (\<forall>i < length (config_expected_pixels_id self_camera_config).
               config_expected_pixels_id self_camera_config ! i < N_PIXELS
               \<and> sg ! (config_expected_pixels_id self_camera_config ! i)
                   = (if zfits_pixel_status zfits_event ! i AND PixelStatus_HIGH_GAIN_STORED \<noteq> 0
                      then 0 else 1))
         \<and> (\<forall>p < N_PIXELS.
               sg ! p = - 1 \<longleftrightarrow> p \<notin> set (config_expected_pixels_id self_camera_config))"
proof -
  define idx where "idx = config_expected_pixels_id self_camera_config"
  define vs :: "int list" where
    "vs = map (\<lambda>s. if s AND PixelStatus_HIGH_GAIN_STORED \<noteq> 0 then 0 else 1)
            (zfits_pixel_status zfits_event)"
  have len: "length vs = length idx" unfolding vs_def idx_def using assms(4) by simp
  have a: "np_assign (replicate N_PIXELS (- 1)) idx vs = Some sg"
    using fill_selected_gain [OF assms(1,2)] len
    unfolding idx_def [symmetric] vs_def [symmetric]
    by (simp add: np_setitem_def broadcast_def)
  have shape: "\<forall>i \<in> set idx. i < N_PIXELS" "length sg = N_PIXELS"
    using np_assign_shape [OF a] by simp_all
  have dist: "distinct idx" unfolding idx_def by (rule assms(3))
  have hit: "sg ! (idx ! i) = vs ! i" if "i < length idx" for i
    using a dist that by (rule np_assign_hit)
  have other: "sg ! p = - 1" if "p \<notin> set idx" "p < N_PIXELS" for p
    using np_assign_other [OF a that(1)] that(2) by simp
  have v01: "v = 0 \<or> v = 1" if "v \<in> set vs" for v
    using that unfolding vs_def by auto
  have listed: "sg ! p = 0 \<or> sg ! p = 1" if "p \<in> set idx" for p
  proof -
    from that obtain i where i: "i < length idx" "idx ! i = p"
      by (auto simp: in_set_conv_nth)
    then have "sg ! p = vs ! i" using hit by blast
    moreover have "vs ! i \<in> set vs" using i(1) len by simp
    ultimately show ?thesis using v01 by simp
  qed
  have c2: "\<forall>p < N_PIXELS. sg ! p = 0 \<or> sg ! p = 1 \<or> sg ! p = - 1"
    using listed other by blast
  have c3: "\<forall>i < length idx. idx ! i < N_PIXELS
              \<and> sg ! (idx ! i) = (if zfits_pixel_status zfits_event ! i
                                      AND PixelStatus_HIGH_GAIN_STORED \<noteq> 0 then 0 else 1)"
  proof (intro allI impI conjI)
    fix i assume i: "i < length idx"
    then show "idx ! i < N_PIXELS" using shape(1) by simp
    have "vs ! i = (if zfits_pixel_status zfits_event ! i
                      AND PixelStatus_HIGH_GAIN_STORED \<noteq> 0 then 0 else 1)"
      unfolding vs_def using i len [unfolded vs_def] by simp
    then show "sg ! (idx ! i) = (if zfits_pixel_status zfits_event ! i
                                    AND PixelStatus_HIGH_GAIN_STORED \<noteq> 0 then 0 else 1)"
      using hit [OF i] by simp
  qed
  have c4: "\<forall>p < N_PIXELS. sg ! p = - 1 \<longleftrightarrow> p \<notin> set idx"
  proof (intro allI impI iffI)
    fix p assume "p < N_PIXELS" "sg ! p = - 1"
    then show "p \<notin> set idx" using listed [of p] by auto
  next
    fix p assume "p < N_PIXELS" "p \<notin> set idx"
    then show "sg ! p = - 1" using other by simp
  qed
  show ?thesis
    using shape(2) c2 c3 c4 unfolding idx_def by blast
qed

text \<open>The theorem at the example.\<close>

theorem selected_gain_marker_witness:
  "\<exists>r sg. fill_r0r1_camera_container example_camera_config example_camera_event = Inr r
     \<and> selected_gain_channel r = Some sg
     \<and> length sg = N_PIXELS
     \<and> sg ! 0 = 0 \<and> sg ! 1 = 0 \<and> sg ! 2 = 1 \<and> sg ! 3 = - 1"
proof -
  from example_fill obtain r sg
    where r: "fill_r0r1_camera_container example_camera_config example_camera_event = Inr r"
      and sg: "selected_gain_channel r = Some sg"
    by blast
  have d: "distinct (config_expected_pixels_id example_camera_config)"
    by (simp add: example_camera_config_def)
  have l: "length (zfits_pixel_status example_camera_event)
             = length (config_expected_pixels_id example_camera_config)"
    by (simp add: example_camera_config_def example_camera_event_def)
  note t = selected_gain_marker [OF r sg d l]
  have e: "config_expected_pixels_id example_camera_config = [0, 1, 2]"
    "zfits_pixel_status example_camera_event = [4, 12, 0]"
    by (simp_all add: example_camera_config_def example_camera_event_def)
  from t have len: "length sg = N_PIXELS" by blast
  from t have hit: "\<forall>i < 3. sg ! ([0, 1, 2] ! i)
      = (if [4, 12, 0 :: uint8] ! i AND PixelStatus_HIGH_GAIN_STORED \<noteq> 0 then 0 else 1)"
    unfolding e by simp
  from t have miss: "\<forall>p < N_PIXELS. sg ! p = - 1 \<longleftrightarrow> p \<notin> set [0, 1, 2 :: nat]"
    unfolding e by blast
  have "sg ! 0 = 0" using hit [rule_format, of 0] by (simp add: PixelStatus_HIGH_GAIN_STORED_def)
  moreover have "sg ! 1 = 0"
    using hit [rule_format, of 1] by (simp add: PixelStatus_HIGH_GAIN_STORED_def)
  moreover have "sg ! 2 = 1"
    using hit [rule_format, of 2] by (simp add: PixelStatus_HIGH_GAIN_STORED_def)
  moreover have "sg ! 3 = - 1"
    using miss [rule_format, of 3] by (simp add: N_defs)
  ultimately show ?thesis using r sg len by blast
qed

end
